theory Spec2Isabelle
  imports Complex_Main "HOL-Library.Word"
begin

unbundle bit_operations_syntax

section \<open>Machine types\<close>

text \<open>
  Tokens and frequency counters keep their width: \<open>int64_t\<close> and \<open>int32_t\<close> tokens are
  words (widening is sign extension, \<open>scast\<close>), a frequency is a \<open>uint32_t\<close> that wraps,
  a hash is a 64-bit \<open>size_t\<close>. The integer attributes (M, N, S, ngram_counts,
  ngram_indexes) are \<open>int\<close>; the one place the source converts them to \<open>size_t\<close>
  (\<open>to_size_t\<close>) writes the wrap-around out. Container sizes, positions in the pool and
  positions in the input are \<open>nat\<close>.

  The loop counters and pointer offsets of the extractor are \<open>int\<close> with their ranges
  written out. The platform is the one the kernel is built for: \<open>int\<close> has 32 bits,
  \<open>int64_t\<close>, \<open>size_t\<close> and pointers have 64. Signed overflow has no defined result
  in C++, so an operation that leaves its type ends the run with \<open>SignedOverflow\<close>:
  \<open>S_ + 1\<close> (line 405), \<open>++ni\<close> on the \<open>int64_t ni\<close> (line 412), \<open>++si\<close> on the
  \<open>int si\<close> that \<open>auto si = 1\<close> declares (line 430), and \<open>ni - 1\<close> and the \<open>int64_t\<close>
  product \<open>si * (ni - 1)\<close> (line 435).

  Line 435 forms the pointer \<open>ngram_start + si * (ni - 1) + 1\<close> before comparing it with
  \<open>end_data\<close>, and line 443 steps \<open>ngram_item\<close> past \<open>ngram_end\<close>, so pointers beyond
  the end of the buffer are formed in every run. They are taken as the flat address
  space computes them, exact as long as the address does not wrap. An element has at
  most 64 bytes (a token is an \<open>int32_t\<close>, an \<open>int64_t\<close> or a \<open>std::string\<close>) and
  objects lie below \<open>2^63\<close>, so an offset of up to \<open>2^56\<close> elements from \<open>input_data\<close>
  cannot wrap: \<open>ptr_offset_max\<close>. A pointer formed outside \<open>[0, ptr_offset_max]\<close> ends
  the run with \<open>PointerOverflow\<close>.
\<close>

type_synonym int64 = "64 word"
type_synonym int32 = "32 word"
type_synonym uint32 = "32 word"
type_synonym size_t = "64 word"

definition to_size_t :: "int \<Rightarrow> nat" where
  \<comment> \<open>\<open>size_t x = <int64_t value>\<close>: conversion modulo \<open>2^64\<close>\<close>
  "to_size_t v = nat (v mod 2 ^ 64)"

definition INT_MAX :: int where
  "INT_MAX = 2 ^ 31 - 1"

definition INT64_MAX :: int where
  "INT64_MAX = 2 ^ 63 - 1"

definition INT64_MIN :: int where
  "INT64_MIN = - (2 ^ 63)"

definition int64_ok :: "int \<Rightarrow> bool" where
  \<comment> \<open>the value of an \<open>int64_t\<close> operation is representable\<close>
  "int64_ok v \<longleftrightarrow> INT64_MIN \<le> v \<and> v \<le> INT64_MAX"

definition ptr_offset_max :: int where
  "ptr_offset_max = 2 ^ 56"

definition ptr_ok :: "int \<Rightarrow> bool" where
  \<comment> \<open>\<open>input_data + k\<close> is formed without wrapping\<close>
  "ptr_ok k \<longleftrightarrow> 0 \<le> k \<and> k \<le> ptr_offset_max"

section \<open>Token key: \<open>NGramItem\<close>\<close>

text \<open>
  \<open>NgramElementBase\<close> holds the id, the derived classes hold the tokens. The
  \<open>int32_t\<close> specialisation derives from the \<open>int64_t\<close> one and stores widened tokens, so
  there are two key types: integer keys and string keys. A name cannot end in an
  underscore here: the members \<open>id_\<close> and \<open>items_\<close> are the fields \<open>item_id\<close> and
  \<open>items\<close>, and a member \<open>x_\<close> of \<open>Ngram::Impl\<close> is the field \<open>impl_x\<close>.
\<close>

record 'a NGramItem =
  item_id :: nat
  items :: "'a list"

definition NGramItem_new :: "nat \<Rightarrow> 'a list \<Rightarrow> 'a NGramItem" where
  \<comment> \<open>\<open>NGramItem(id, first, last)\<close>, the range given as a list\<close>
  "NGramItem_new i ts = \<lparr>item_id = i, items = ts\<rparr>"

definition NGramItem_sample :: "'a NGramItem" where
  \<comment> \<open>\<open>NGramItem()\<close>, "for sampling": id 0, no tokens\<close>
  "NGramItem_sample = \<lparr>item_id = 0, items = []\<rparr>"

definition AddItem :: "'a \<Rightarrow> 'a NGramItem \<Rightarrow> 'a NGramItem" where
  "AddItem t a = a\<lparr>items := items a @ [t]\<rparr>"

definition Clear :: "'a NGramItem \<Rightarrow> 'a NGramItem" where
  "Clear a = a\<lparr>items := []\<rparr>"

fun std_equal :: "'a list \<Rightarrow> 'a list \<Rightarrow> bool" where
  \<comment> \<open>\<open>std::equal(first1, last1, first2, last2)\<close>: ranges of different length are unequal\<close>
  "std_equal [] [] = True"
| "std_equal (x # xs) (y # ys) = (x = y \<and> std_equal xs ys)"
| "std_equal _ _ = False"

definition vector_eq :: "'a list \<Rightarrow> 'a list \<Rightarrow> bool" where
  \<comment> \<open>\<open>std::vector::operator==\<close>: same size and \<open>std::equal\<close>\<close>
  "vector_eq a b = (length a = length b \<and> std_equal a b)"

definition NGramItem_int64_eq :: "int64 NGramItem \<Rightarrow> int64 NGramItem \<Rightarrow> bool" where
  \<comment> \<open>\<open>NGramItem<int64_t>::operator==\<close>, lines 74-76\<close>
  "NGramItem_int64_eq a b = vector_eq (items a) (items b)"

definition NGramItem_string_eq :: "string NGramItem \<Rightarrow> string NGramItem \<Rightarrow> bool" where
  \<comment> \<open>\<open>NGramItem<std::string>::operator==\<close>, lines 121-128\<close>
  "NGramItem_string_eq a b =
     (if length (items a) = length (items b) then std_equal (items a) (items b)
      else False)"

fun hash_loop :: "('a \<Rightarrow> size_t) \<Rightarrow> size_t \<Rightarrow> 'a list \<Rightarrow> size_t" where
  \<comment> \<open>\<open>while (++first != end) hash ^= hf(*first) + 0x9e3779b9 + (hash << 6) + (hash >> 2)\<close>\<close>
  "hash_loop hf h [] = h"
| "hash_loop hf h (x # xs) =
     hash_loop hf (h XOR (hf x + 0x9e3779b9 + push_bit 6 h + drop_bit 2 h)) xs"

definition NGramItem_hash :: "('a \<Rightarrow> size_t) \<Rightarrow> 'a NGramItem \<Rightarrow> size_t" where
  \<comment> \<open>\<open>hash()\<close>; \<open>hf\<close> is \<open>std::hash\<close> of the token type, which the standard library fixes\<close>
  "NGramItem_hash hf a =
     (case items a of [] \<Rightarrow> 0 | x # xs \<Rightarrow> hash_loop hf (hf x) xs)"

section \<open>The pool sets\<close>

text \<open>
  A \<open>std::unordered_set\<close> of keys is the list of its elements in insertion order. Its
  iteration order is never observed by the program: only \<open>size\<close>, \<open>find\<close> and
  \<open>emplace\<close> are used. The key equality is a parameter, \<open>NGramItem_int64_eq\<close> for
  \<open>IntegerPoolSet\<close> and \<open>NGramItem_string_eq\<close> for \<open>StringPoolSet\<close>.
\<close>

type_synonym 'a PoolSet = "'a NGramItem list"

fun set_find ::
  "('a NGramItem \<Rightarrow> 'a NGramItem \<Rightarrow> bool) \<Rightarrow> 'a PoolSet \<Rightarrow> 'a NGramItem \<Rightarrow> 'a NGramItem option"
where
  \<comment> \<open>\<open>find\<close>: the stored element equal to the probe; \<open>None\<close> is \<open>cend()\<close>\<close>
  "set_find eq [] k = None"
| "set_find eq (e # es) k = (if eq e k then Some e else set_find eq es k)"

definition set_emplace ::
  "('a NGramItem \<Rightarrow> 'a NGramItem \<Rightarrow> bool) \<Rightarrow> 'a NGramItem \<Rightarrow> 'a PoolSet \<Rightarrow> 'a PoolSet"
where
  \<comment> \<open>\<open>emplace\<close>: no insertion when an equal element is already stored\<close>
  "set_emplace eq item c = (case set_find eq c item of None \<Rightarrow> c @ [item] | Some _ \<Rightarrow> c)"

fun Emplace ::
  "('a NGramItem \<Rightarrow> 'a NGramItem \<Rightarrow> bool) \<Rightarrow> 'a list \<Rightarrow> nat \<Rightarrow> nat \<Rightarrow> nat \<Rightarrow> 'a PoolSet
     \<Rightarrow> nat \<times> 'a PoolSet"
where
  \<comment> \<open>lines 147-154; \<open>first\<close> is the pool from the iterator on; returns \<open>ngram_id\<close> and \<open>c\<close>\<close>
  "Emplace eq first 0 ngram_size ngram_id c = (ngram_id, c)"
| "Emplace eq first (Suc ngrams) ngram_size ngram_id c =
     Emplace eq (drop ngram_size first) ngrams ngram_size (Suc ngram_id)
       (set_emplace eq (NGramItem_new ngram_id (take ngram_size first)) c)"

section \<open>Configuration and construction\<close>

datatype Mode = kNone | kTF | kIDF | kTFIDF

text \<open>
  The attributes as \<open>OpKernelInfo\<close> serves them: \<open>None\<close> where \<open>GetAttr\<close>/\<open>GetAttrs\<close>
  does not return an OK status. The type \<open>'f\<close> is \<open>float\<close>.
\<close>

record 'f OpKernelInfo =
  attr_mode :: "string option"
  attr_M :: "int option"
  attr_N :: "int option"
  attr_S :: "int option"
  attr_all :: "int option"
  attr_ngram_counts :: "int list option"
  attr_ngram_indexes :: "int list option"
  attr_weights :: "'f list option"
  attr_pool_strings :: "string list option"
  attr_pool_int64s :: "int64 list option"

record 'f Impl =
  impl_mode :: Mode
  impl_N :: int
  impl_M :: int
  impl_S :: int
  impl_all :: bool
  impl_ngram_counts :: "int list"
  impl_ngram_indexes :: "int list"
  impl_weights :: "'f list"
  impl_pool_strings :: "string list"
  impl_str_set :: "string PoolSet"
  impl_int_set :: "int64 PoolSet"

text \<open>Every failed \<open>ONNXRUNTIME_ENFORCE\<close> of the constructor, in source order.\<close>

datatype ConfigError =
    ModeRequired
  | UnrecognizedMode
  | PositiveMRequired
  | NAtLeastMRequired
  | NonNegativeSRequired
  | AllRequired
  | NgramCountsRequired
  | NgramIndexesRequired
  | WeightsSizeMismatch
  | PoolStringsEmpty
  | PoolInt64sRequired
  | CountsOutOfBounds nat
  | NotWholeNgrams nat
  | DuplicateNgrams nat
  | PoolIndexesMismatch

definition Ngram_attrs :: "'f OpKernelInfo \<Rightarrow> ConfigError + ('f Impl \<times> int64 list)" where
  \<comment> \<open>lines 269-313: reads and checks the attributes; returns \<open>*impl_\<close> and \<open>pool_int64s\<close>\<close>
  "Ngram_attrs info =
    (let mode_v = (case attr_mode info of
                     None \<Rightarrow> kNone
                   | Some m \<Rightarrow> if m = ''TF'' then kTF
                               else if m = ''IDF'' then kIDF
                               else if m = ''TFIDF'' then kTFIDF
                               else kNone);
         M = (case attr_M info of None \<Rightarrow> 0 | Some v \<Rightarrow> v);
         N = (case attr_N info of None \<Rightarrow> 0 | Some v \<Rightarrow> v);
         S = (case attr_S info of None \<Rightarrow> 0 | Some v \<Rightarrow> v);
         all = (case attr_all info of None \<Rightarrow> 0 | Some v \<Rightarrow> v);
         ngram_counts = (case attr_ngram_counts info of None \<Rightarrow> [] | Some v \<Rightarrow> v);
         ngram_indexes = (case attr_ngram_indexes info of None \<Rightarrow> [] | Some v \<Rightarrow> v);
         weights = (case attr_weights info of None \<Rightarrow> [] | Some v \<Rightarrow> v);
         pool_strings = (case attr_pool_strings info of None \<Rightarrow> [] | Some v \<Rightarrow> v);
         pool_int64s = (if attr_pool_strings info \<noteq> None then []
                        else case attr_pool_int64s info of None \<Rightarrow> [] | Some v \<Rightarrow> v)
     in if attr_mode info = None then Inl ModeRequired
        else if \<not> mode_v \<noteq> kNone then Inl UnrecognizedMode
        else if \<not> (attr_M info \<noteq> None \<and> M > 0) then Inl PositiveMRequired
        else if \<not> (attr_N info \<noteq> None \<and> N \<ge> M) then Inl NAtLeastMRequired
        else if \<not> (attr_S info \<noteq> None \<and> N \<ge> 0) then Inl NonNegativeSRequired
        else if attr_all info = None then Inl AllRequired
        else if \<not> (attr_ngram_counts info \<noteq> None \<and> ngram_counts \<noteq> [])
          then Inl NgramCountsRequired
        else if \<not> (attr_ngram_indexes info \<noteq> None \<and> ngram_indexes \<noteq> [])
          then Inl NgramIndexesRequired
        else if attr_weights info \<noteq> None \<and> \<not> length weights = length ngram_indexes
          then Inl WeightsSizeMismatch
        else if attr_pool_strings info \<noteq> None \<and> \<not> pool_strings \<noteq> []
          then Inl PoolStringsEmpty
        else if attr_pool_strings info = None
                \<and> \<not> (attr_pool_int64s info \<noteq> None \<and> pool_int64s \<noteq> [])
          then Inl PoolInt64sRequired
        else Inr (\<lparr>impl_mode = mode_v, impl_N = N, impl_M = M, impl_S = S, impl_all = (all \<noteq> 0),
                   impl_ngram_counts = ngram_counts, impl_ngram_indexes = ngram_indexes,
                   impl_weights = weights, impl_pool_strings = pool_strings,
                   impl_str_set = [], impl_int_set = []\<rparr>, pool_int64s))"

text \<open>
  The loop of lines 319-340. Both branches of lines 329-337 run the same code, once on
  \<open>pool_int64s\<close> and \<open>int_set_\<close>, once on \<open>pool_strings_\<close> and \<open>str_set_\<close>, and the
  branch taken is the same in every iteration, so the loop is written once for a pool
  and its set.
\<close>

function pool_loop ::
  "('a NGramItem \<Rightarrow> 'a NGramItem \<Rightarrow> bool) \<Rightarrow> int list \<Rightarrow> 'a list \<Rightarrow> nat \<Rightarrow> nat \<Rightarrow> nat
     \<Rightarrow> 'a PoolSet \<Rightarrow> ConfigError + 'a PoolSet"
where
  "pool_loop eq ngram_counts pool i ngram_id ngram_size c =
    (if i < length ngram_counts then
       let total_items = length pool;
           start_idx = to_size_t (ngram_counts ! i);
           end_idx = (if i + 1 < length ngram_counts then to_size_t (ngram_counts ! (i + 1))
                      else total_items)
       in if \<not> (end_idx \<ge> start_idx \<and> end_idx \<le> total_items)
            then Inl (CountsOutOfBounds ngram_size)
          else
            let items = end_idx - start_idx
            in if items > 0 then
                 if \<not> items mod ngram_size = 0 then Inl (NotWholeNgrams ngram_size)
                 else
                   let ngrams = items div ngram_size;
                       before_insert = length c;
                       (ngram_id', c') =
                          Emplace eq (drop start_idx pool) ngrams ngram_size ngram_id c
                   in if \<not> before_insert + ngrams = length c'
                        then Inl (DuplicateNgrams ngram_size)
                      else pool_loop eq ngram_counts pool (i + 1) ngram_id' (ngram_size + 1) c'
               else pool_loop eq ngram_counts pool (i + 1) ngram_id (ngram_size + 1) c
     else Inr c)"
  by pat_completeness auto
termination
  by (relation "measure (\<lambda>(eq, ngram_counts, pool, i, ngram_id, ngram_size, c).
                           length ngram_counts - i)") auto

definition Ngram :: "'f OpKernelInfo \<Rightarrow> ConfigError + 'f Impl" where
  \<comment> \<open>the constructor \<open>Ngram::Ngram\<close>, lines 268-348; \<open>Inl\<close> is the exception thrown\<close>
  "Ngram info =
    (case Ngram_attrs info of
       Inl e \<Rightarrow> Inl e
     | Inr (impl, pool_int64s) \<Rightarrow>
         if impl_pool_strings impl = [] then
           (case pool_loop NGramItem_int64_eq (impl_ngram_counts impl) pool_int64s 0 0 1
                   (impl_int_set impl) of
              Inl e \<Rightarrow> Inl e
            | Inr c \<Rightarrow>
                if \<not> length c = length (impl_ngram_indexes impl) then Inl PoolIndexesMismatch
                else Inr (impl\<lparr>impl_int_set := c\<rparr>))
         else
           (case pool_loop NGramItem_string_eq (impl_ngram_counts impl) (impl_pool_strings impl) 0 0 1
                   (impl_str_set impl) of
              Inl e \<Rightarrow> Inl e
            | Inr c \<Rightarrow>
                if \<not> length (impl_pool_strings impl) = length (impl_ngram_indexes impl)
                  then Inl PoolIndexesMismatch
                else Inr (impl\<lparr>impl_str_set := c\<rparr>)))"

section \<open>Extraction\<close>

text \<open>
  What can stop a call of \<open>Compute\<close> other than its returned status: the
  \<open>ONNXRUNTIME_ENFORCE\<close> of \<open>IncrementCount\<close> throws, a failed \<open>assert\<close> aborts, and
  a read at or beyond the end of the input buffer, a signed overflow and a pointer
  formed beyond the addressable range have no defined result. Where
  \<open>assert\<close> is compiled out, what follows a violated assertion (an index beyond the
  vector) has no defined result either, so the assertion is where the model stops.
\<close>

datatype RuntimeError =
    NegativeIndex
  | AssertIdInRange
  | AssertSlotInRange
  | AssertSizesEqual
  | AssertFalse
  | ReadPastInput
  | SignedOverflow
  | PointerOverflow

definition IncrementCount :: "'f Impl \<Rightarrow> nat \<Rightarrow> uint32 list \<Rightarrow> RuntimeError + uint32 list" where
  \<comment> \<open>lines 214-220; \<open>++frequencies[output_idx]\<close> wraps at \<open>2^32\<close>\<close>
  "IncrementCount impl ngram_id frequencies =
     (if \<not> ngram_id < length (impl_ngram_indexes impl) then Inl AssertIdInRange
      else
        let output_idx = impl_ngram_indexes impl ! ngram_id
        in if \<not> output_idx \<ge> 0 then Inl NegativeIndex
           else if \<not> nat output_idx < length frequencies then Inl AssertSlotInRange
           else Inr (frequencies[nat output_idx := frequencies ! nat output_idx + 1]))"

definition GetPoolSize_int64 :: "'f Impl \<Rightarrow> nat" where
  "GetPoolSize_int64 impl = length (impl_int_set impl)"

definition GetPoolSize_int32 :: "'f Impl \<Rightarrow> nat" where
  "GetPoolSize_int32 impl = GetPoolSize_int64 impl"

definition GetPoolSize_string :: "'f Impl \<Rightarrow> nat" where
  "GetPoolSize_string impl = length (impl_str_set impl)"

definition Find_int64 :: "'f Impl \<Rightarrow> int64 NGramItem \<Rightarrow> int64 NGramItem option" where
  "Find_int64 impl i = set_find NGramItem_int64_eq (impl_int_set impl) i"

definition Find_int32 :: "'f Impl \<Rightarrow> int64 NGramItem \<Rightarrow> int64 NGramItem option" where
  \<comment> \<open>an \<open>NGramItem<int32_t>\<close> is an \<open>NGramItem<int64_t>\<close>; line 260 probes \<open>int_set_\<close>\<close>
  "Find_int32 impl i = set_find NGramItem_int64_eq (impl_int_set impl) i"

definition Find_string :: "'f Impl \<Rightarrow> string NGramItem \<Rightarrow> string NGramItem option" where
  "Find_string impl i = set_find NGramItem_string_eq (impl_str_set impl) i"

definition deref :: "'a list \<Rightarrow> int \<Rightarrow> RuntimeError + 'a" where
  \<comment> \<open>\<open>*p\<close> for \<open>p = input_data + k\<close>\<close>
  "deref input_data k =
     (if 0 \<le> k \<and> nat k < length input_data then Inr (input_data ! nat k)
      else Inl ReadPastInput)"

definition record_hit ::
  "'f Impl \<Rightarrow> ('k NGramItem \<Rightarrow> 'k NGramItem option) \<Rightarrow> 'k NGramItem \<Rightarrow> uint32 list
     \<Rightarrow> RuntimeError + uint32 list"
where
  \<comment> \<open>lines 419-424 and 448-453: a miss leaves the frequencies as they are\<close>
  "record_hit impl Find sample frequencies =
     (case Find sample of
        None \<Rightarrow> Inr frequencies
      | Some hit \<Rightarrow> IncrementCount impl (item_id hit) frequencies)"

text \<open>
  \<open>ComputeImpl<T>\<close> is written once: \<open>Find\<close> is \<open>impl.Find<T>\<close> and \<open>conv\<close> is the
  conversion of the argument of \<open>sample.AddItem\<close> (the widening of an \<open>int32_t\<close> token
  to \<open>int64_t\<close>, nothing for the other two types). Positions are offsets from
  \<open>input_data\<close>; \<open>end_data\<close> is \<open>total_items\<close>. The one \<open>sample\<close> of the source is
  cleared before every window and its id stays 0, so every window starts from
  \<open>Clear NGramItem_sample\<close>.
\<close>

function unigram_loop ::
  "'f Impl \<Rightarrow> ('k NGramItem \<Rightarrow> 'k NGramItem option) \<Rightarrow> ('a \<Rightarrow> 'k) \<Rightarrow> 'a list \<Rightarrow> int \<Rightarrow> int
     \<Rightarrow> uint32 list \<Rightarrow> RuntimeError + uint32 list"
where
  \<comment> \<open>lines 415-426; \<open>first != end_data\<close> is \<open>first < end_data\<close>, as \<open>first\<close> starts at 0\<close>
  "unigram_loop impl Find conv input_data end_data first frequencies =
     (if first < end_data then
        case deref input_data first of
          Inl e \<Rightarrow> Inl e
        | Inr t \<Rightarrow>
            (case record_hit impl Find (AddItem (conv t) (Clear NGramItem_sample)) frequencies of
               Inl e \<Rightarrow> Inl e
             | Inr frequencies' \<Rightarrow>
                 unigram_loop impl Find conv input_data end_data (first + 1) frequencies')
      else Inr frequencies)"
  by pat_completeness auto
termination
  by (relation "measure (\<lambda>(impl, Find, conv, input_data, end_data, first, frequencies).
                           nat (end_data - first))") auto

function collect ::
  "('a \<Rightarrow> 'k) \<Rightarrow> 'a list \<Rightarrow> int \<Rightarrow> int \<Rightarrow> int \<Rightarrow> 'k NGramItem \<Rightarrow> RuntimeError + 'k NGramItem"
where
  \<comment> \<open>lines 441-444; every caller has \<open>si \<ge> 1\<close>, without which the source loop would not advance\<close>
  "collect conv input_data ngram_item ngram_end si sample =
     (if ngram_item < ngram_end \<and> 0 < si then
        case deref input_data ngram_item of
          Inl e \<Rightarrow> Inl e
        | Inr t \<Rightarrow>
            if \<not> ptr_ok (ngram_item + si) then Inl PointerOverflow
            else collect conv input_data (ngram_item + si) ngram_end si (AddItem (conv t) sample)
      else Inr sample)"
  by pat_completeness auto
termination
  by (relation "measure (\<lambda>(conv, input_data, ngram_item, ngram_end, si, sample).
                           nat (ngram_end - ngram_item))") auto

function window_loop ::
  "'f Impl \<Rightarrow> ('k NGramItem \<Rightarrow> 'k NGramItem option) \<Rightarrow> ('a \<Rightarrow> 'k) \<Rightarrow> 'a list \<Rightarrow> int \<Rightarrow> int
     \<Rightarrow> int \<Rightarrow> int \<Rightarrow> uint32 list \<Rightarrow> RuntimeError + uint32 list"
where
  \<comment> \<open>lines 431-455, for one length \<open>ni\<close> and one distance \<open>si\<close>\<close>
  "window_loop impl Find conv input_data end_data ni si ngram_start frequencies =
     (if ngram_start < end_data then
        if ni - 1 < INT64_MIN \<or> \<not> int64_ok (si * (ni - 1)) then Inl SignedOverflow
        else if \<not> ptr_ok (ngram_start + si * (ni - 1))
                \<or> \<not> ptr_ok (ngram_start + si * (ni - 1) + 1) then Inl PointerOverflow
        else
          let ngram_end = ngram_start + si * (ni - 1) + 1
          in if ngram_end > end_data then Inr frequencies
             else
               case collect conv input_data ngram_start ngram_end si (Clear NGramItem_sample) of
                 Inl e \<Rightarrow> Inl e
               | Inr sample \<Rightarrow>
                   (case record_hit impl Find sample frequencies of
                      Inl e \<Rightarrow> Inl e
                    | Inr frequencies' \<Rightarrow>
                        window_loop impl Find conv input_data end_data ni si (ngram_start + 1)
                          frequencies')
      else Inr frequencies)"
  by pat_completeness auto
termination
  by (relation "measure (\<lambda>(impl, Find, conv, input_data, end_data, ni, si, ngram_start,
                            frequencies). nat (end_data - ngram_start))") auto

function stride_loop ::
  "'f Impl \<Rightarrow> ('k NGramItem \<Rightarrow> 'k NGramItem option) \<Rightarrow> ('a \<Rightarrow> 'k) \<Rightarrow> 'a list \<Rightarrow> int \<Rightarrow> int
     \<Rightarrow> int \<Rightarrow> int \<Rightarrow> uint32 list \<Rightarrow> RuntimeError + uint32 list"
where
  \<comment> \<open>line 430: \<open>for (auto si = 1; si <= S; ++si)\<close>, entered with \<open>si = 1\<close>; \<open>si\<close> is an
      \<open>int\<close>, converted to \<open>int64_t\<close> for the comparison with \<open>S\<close>\<close>
  "stride_loop impl Find conv input_data end_data ni S si frequencies =
     (if si \<le> S then
        case window_loop impl Find conv input_data end_data ni si 0 frequencies of
          Inl e \<Rightarrow> Inl e
        | Inr frequencies' \<Rightarrow>
            if si + 1 > INT_MAX then Inl SignedOverflow
            else stride_loop impl Find conv input_data end_data ni S (si + 1) frequencies'
      else Inr frequencies)"
  by pat_completeness auto
termination
  by (relation "measure (\<lambda>(impl, Find, conv, input_data, end_data, ni, S, si, frequencies).
                           nat (S + 1 - si))") auto

function length_loop ::
  "'f Impl \<Rightarrow> ('k NGramItem \<Rightarrow> 'k NGramItem option) \<Rightarrow> ('a \<Rightarrow> 'k) \<Rightarrow> 'a list \<Rightarrow> int \<Rightarrow> int
     \<Rightarrow> int \<Rightarrow> int \<Rightarrow> uint32 list \<Rightarrow> RuntimeError + uint32 list"
where
  \<comment> \<open>line 412: \<open>for (auto ni = n; ni <= N; ++ni)\<close>, entered with \<open>ni = n\<close>\<close>
  "length_loop impl Find conv input_data end_data N S ni frequencies =
     (if ni \<le> N then
        case (if ni = 1 then unigram_loop impl Find conv input_data end_data 0 frequencies
              else stride_loop impl Find conv input_data end_data ni S 1 frequencies) of
          Inl e \<Rightarrow> Inl e
        | Inr frequencies' \<Rightarrow>
            if ni + 1 > INT64_MAX then Inl SignedOverflow
            else length_loop impl Find conv input_data end_data N S (ni + 1) frequencies'
      else Inr frequencies)"
  by pat_completeness auto
termination
  by (relation "measure (\<lambda>(impl, Find, conv, input_data, end_data, N, S, ni, frequencies).
                           nat (N + 1 - ni))") auto

definition count_ngrams ::
  "'f Impl \<Rightarrow> ('k NGramItem \<Rightarrow> 'k NGramItem option) \<Rightarrow> nat \<Rightarrow> ('a \<Rightarrow> 'k) \<Rightarrow> 'a list \<Rightarrow> nat
     \<Rightarrow> RuntimeError + uint32 list"
where
  \<comment> \<open>lines 398-458 of \<open>ComputeImpl\<close>: the frequencies handed to \<open>OutputResult\<close>\<close>
  "count_ngrams impl Find pool_size conv input_data total_items =
     (let frequencies = replicate pool_size 0;
          N = impl_N impl
      in if impl_S impl + 1 > INT64_MAX then Inl SignedOverflow
         else
           let S = impl_S impl + 1;
               n = (if impl_all impl then impl_M impl else N);
               end_data = int total_items
           in length_loop impl Find conv input_data end_data N S n frequencies)"

text \<open>
  The runs in which no counter and no pointer offset of the extractor leaves its range:
  \<open>S_ + 1\<close> stays below \<open>INT_MAX\<close>, so that \<open>++si\<close> is defined, \<open>N_\<close> below
  \<open>INT64_MAX\<close>, so that \<open>++ni\<close> is, and when there is a stride at all the farthest
  pointer formed, \<open>total_items + (S_ + 1) * N_\<close> elements from \<open>input_data\<close>, is within
  \<open>ptr_offset_max\<close>.
\<close>

definition counters_in_range :: "int \<Rightarrow> int \<Rightarrow> nat \<Rightarrow> bool" where
  "counters_in_range skipCount maxLength total_items \<longleftrightarrow>
     skipCount + 1 < INT_MAX \<and> maxLength < INT64_MAX
     \<and> (skipCount + 1 < 1
          \<or> int total_items + (skipCount + 1) * maxLength \<le> ptr_offset_max)"

section \<open>Output encoder\<close>

text \<open>
  \<open>float\<close> is the type \<open>'f\<close>, with the four things the encoder does with it: the
  conversion of a \<open>uint32_t\<close> (\<open>static_cast<float>(f)\<close>, and the promotion of
  \<open>frequences[i]\<close> in \<open>frequences[i] * w[i]\<close>), the product of two floats, the value of
  the \<open>int\<close> literal \<open>0\<close> converted to \<open>float\<close>, and \<open>1.0f\<close>.
\<close>

record 'f float_ops =
  float_of_uint32 :: "uint32 \<Rightarrow> 'f"
  float_mul :: "'f \<Rightarrow> 'f \<Rightarrow> 'f"
  float_zero :: 'f
  float_one :: 'f

definition OutputResult :: "'f float_ops \<Rightarrow> 'f Impl \<Rightarrow> uint32 list \<Rightarrow> RuntimeError + 'f list" where
  \<comment> \<open>lines 353-394: the data of the output tensor \<open>Y\<close>, whose shape is \<open>[frequences.size()]\<close>.
      The label \<open>case kTFIDF\<close> sits inside the block of \<open>case kIDF\<close>, after its \<open>break\<close>:
      the \<open>switch\<close> jumps to it all the same.\<close>
  "OutputResult fl impl frequences =
     (let w = impl_weights impl
      in case impl_mode impl of
           kTF \<Rightarrow> Inr (map (float_of_uint32 fl) frequences)
         | kIDF \<Rightarrow>
             if w \<noteq> [] then
               if \<not> length frequences = length w then Inl AssertSizesEqual
               else Inr (map (\<lambda>i. if frequences ! i > 0 then w ! i else float_zero fl)
                           [0..<length frequences])
             else Inr (map (\<lambda>f. if f > 0 then float_one fl else float_zero fl) frequences)
         | kTFIDF \<Rightarrow>
             if w \<noteq> [] then
               if \<not> length frequences = length w then Inl AssertSizesEqual
               else Inr (map (\<lambda>i. float_mul fl (float_of_uint32 fl (frequences ! i)) (w ! i))
                           [0..<length frequences])
             else Inr (map (float_of_uint32 fl) frequences)
         | kNone \<Rightarrow> Inl AssertFalse)"

definition ComputeImpl ::
  "'f float_ops \<Rightarrow> 'f Impl \<Rightarrow> ('k NGramItem \<Rightarrow> 'k NGramItem option) \<Rightarrow> nat \<Rightarrow> ('a \<Rightarrow> 'k)
     \<Rightarrow> 'a list \<Rightarrow> nat \<Rightarrow> RuntimeError + 'f list"
where
  \<comment> \<open>lines 396-460\<close>
  "ComputeImpl fl impl Find pool_size conv input_data total_items =
     (case count_ngrams impl Find pool_size conv input_data total_items of
        Inl e \<Rightarrow> Inl e
      | Inr frequencies \<Rightarrow> OutputResult fl impl frequencies)"

definition ComputeImpl_int32 ::
  "'f float_ops \<Rightarrow> 'f Impl \<Rightarrow> int32 list \<Rightarrow> nat \<Rightarrow> RuntimeError + 'f list"
where
  "ComputeImpl_int32 fl impl input_data total_items =
     ComputeImpl fl impl (Find_int32 impl) (GetPoolSize_int32 impl) scast input_data total_items"

definition ComputeImpl_int64 ::
  "'f float_ops \<Rightarrow> 'f Impl \<Rightarrow> int64 list \<Rightarrow> nat \<Rightarrow> RuntimeError + 'f list"
where
  "ComputeImpl_int64 fl impl input_data total_items =
     ComputeImpl fl impl (Find_int64 impl) (GetPoolSize_int64 impl) (\<lambda>t. t) input_data
       total_items"

definition ComputeImpl_string ::
  "'f float_ops \<Rightarrow> 'f Impl \<Rightarrow> string list \<Rightarrow> nat \<Rightarrow> RuntimeError + 'f list"
where
  "ComputeImpl_string fl impl input_data total_items =
     ComputeImpl fl impl (Find_string impl) (GetPoolSize_string impl) (\<lambda>t. t) input_data
       total_items"

section \<open>The kernel entry point\<close>

text \<open>
  The input tensor is its shape and its buffer; the constructor of the buffer is the
  element type that \<open>X->DataType()\<close> reports, \<open>OtherData k\<close> standing for the \<open>k\<close>-th
  of the element types the kernel does not handle.
\<close>

datatype TensorData =
    Int32Data "int32 list"
  | Int64Data "int64 list"
  | StringData "string list"
  | OtherData nat

record Tensor =
  tensor_dims :: "int list"
  tensor_data :: TensorData

record 'f OpKernelContext =
  ctx_input :: Tensor
  ctx_output :: "'f list option"

datatype Status = OK | INVALID_ARGUMENT

definition get_total_items :: "int list \<Rightarrow> nat" where
  \<comment> \<open>lines 466-475; \<open>total_items *= dim\<close> is a \<open>size_t\<close> product\<close>
  "get_total_items input_dims =
     (if input_dims = [] \<or> (length input_dims = 1 \<and> input_dims ! 0 = 0) then 1
      else fold (\<lambda>dim total_items. (total_items * to_size_t dim) mod 2 ^ 64) input_dims 1)"

definition Compute ::
  "'f float_ops \<Rightarrow> 'f Impl \<Rightarrow> 'f OpKernelContext \<Rightarrow> RuntimeError + (Status \<times> 'f OpKernelContext)"
where
  \<comment> \<open>lines 462-489: the status returned and the context with the output written. The
      kernel is \<open>const\<close> and \<open>*impl_\<close> is only read, so \<open>impl\<close> is an argument and not a
      part of the result.\<close>
  "Compute fl impl ctx =
     (let X = ctx_input ctx;
          total_items = get_total_items (tensor_dims X);
          written = (\<lambda>r. case r of
                            Inl e \<Rightarrow> Inl e
                          | Inr y \<Rightarrow> Inr (OK, ctx\<lparr>ctx_output := Some y\<rparr>))
      in case tensor_data X of
           Int32Data input_data \<Rightarrow> written (ComputeImpl_int32 fl impl input_data total_items)
         | Int64Data input_data \<Rightarrow> written (ComputeImpl_int64 fl impl input_data total_items)
         | StringData input_data \<Rightarrow> written (ComputeImpl_string fl impl input_data total_items)
         | OtherData k \<Rightarrow> Inr (INVALID_ARGUMENT, ctx))"

section \<open>The extractor as the specification words it\<close>

text \<open>
  The windows of section 4.3, in the order the extractor visits them: for each length,
  unigrams at every position or, for longer windows, for each stride from 1 to
  \<open>skipCount + 1\<close> and each start at which a span of \<open>stride * (length - 1) + 1\<close>
  positions fits, the \<open>length\<close> tokens at spacing \<open>stride\<close>. \<open>record_hits\<close> probes a
  list of windows in order.
\<close>

definition spec_window :: "'k list \<Rightarrow> nat \<Rightarrow> nat \<Rightarrow> nat \<Rightarrow> 'k list" where
  "spec_window xs start stride len = map (\<lambda>k. xs ! (start + k * stride)) [0..<len]"

definition spec_fits :: "nat \<Rightarrow> nat \<Rightarrow> nat \<Rightarrow> nat \<Rightarrow> bool" where
  "spec_fits n stride len start \<longleftrightarrow> start + (stride * (len - 1) + 1) \<le> n"

definition spec_starts :: "nat \<Rightarrow> nat \<Rightarrow> nat \<Rightarrow> nat list" where
  "spec_starts n stride len = filter (spec_fits n stride len) [0..<n]"

definition spec_windows_at :: "'k list \<Rightarrow> nat \<Rightarrow> nat \<Rightarrow> 'k list list" where
  "spec_windows_at xs len stride =
     map (\<lambda>start. spec_window xs start stride len) (spec_starts (length xs) stride len)"

definition spec_skip_windows :: "'k list \<Rightarrow> nat \<Rightarrow> int \<Rightarrow> 'k list list" where
  "spec_skip_windows xs len skipCount =
     concat (map (\<lambda>stride. spec_windows_at xs len (nat stride)) [1..skipCount + 1])"

definition spec_unigrams :: "'k list \<Rightarrow> 'k list list" where
  "spec_unigrams xs = map (\<lambda>x. [x]) xs"

definition spec_all_windows :: "'k list \<Rightarrow> int \<Rightarrow> int \<Rightarrow> int \<Rightarrow> 'k list list" where
  "spec_all_windows xs lowLength maxLength skipCount =
     concat (map (\<lambda>len. if len = 1 then spec_unigrams xs
                         else spec_skip_windows xs (nat len) skipCount)
               [lowLength..maxLength])"

fun record_hits ::
  "'f Impl \<Rightarrow> ('k NGramItem \<Rightarrow> 'k NGramItem option) \<Rightarrow> 'k list list \<Rightarrow> uint32 list
     \<Rightarrow> RuntimeError + uint32 list"
where
  "record_hits impl Find [] frequencies = Inr frequencies"
| "record_hits impl Find (w # ws) frequencies =
     (case record_hit impl Find \<lparr>item_id = 0, items = w\<rparr> frequencies of
        Inl e \<Rightarrow> Inl e
      | Inr frequencies' \<Rightarrow> record_hits impl Find ws frequencies')"

section \<open>Concrete configurations\<close>

text \<open>
  An idealised \<open>float\<close> for evaluating the encoder on concrete inputs: the reals, on
  which the small counts and weights of the examples are exact as they are in \<open>float\<close>.
\<close>

definition ideal_float :: "real float_ops" where
  "ideal_float = \<lparr>float_of_uint32 = (\<lambda>f. real (unat f)), float_mul = (*),
                   float_zero = 0, float_one = 1\<rparr>"

text \<open>
  Scenarios A and B of section 8, as attributes and as the kernels constructed from
  them, with \<open>ideal_float\<close> for \<open>float\<close>.
\<close>

definition scenario_A :: "real OpKernelInfo" where
  "scenario_A = \<lparr>attr_mode = Some ''TF'', attr_M = Some 1, attr_N = Some 1, attr_S = Some 0,
     attr_all = Some 0, attr_ngram_counts = Some [0], attr_ngram_indexes = Some [0, 1, 2],
     attr_weights = None, attr_pool_strings = None, attr_pool_int64s = Some [5, 6, 7]\<rparr>"

definition scenario_B :: "real OpKernelInfo" where
  "scenario_B = \<lparr>attr_mode = Some ''TF'', attr_M = Some 2, attr_N = Some 2, attr_S = Some 1,
     attr_all = Some 0, attr_ngram_counts = Some [0, 0], attr_ngram_indexes = Some [0],
     attr_weights = None, attr_pool_strings = None, attr_pool_int64s = Some [1, 3]\<rparr>"

definition kernel_A :: "real Impl" where
  \<comment> \<open>what \<open>Ngram scenario_A\<close> constructs\<close>
  "kernel_A = \<lparr>impl_mode = kTF, impl_N = 1, impl_M = 1, impl_S = 0, impl_all = False,
     impl_ngram_counts = [0], impl_ngram_indexes = [0, 1, 2], impl_weights = [],
     impl_pool_strings = [], impl_str_set = [],
     impl_int_set = [\<lparr>item_id = 0, items = [5]\<rparr>, \<lparr>item_id = 1, items = [6]\<rparr>,
                     \<lparr>item_id = 2, items = [7]\<rparr>]\<rparr>"

definition kernel_B :: "real Impl" where
  \<comment> \<open>what \<open>Ngram scenario_B\<close> constructs\<close>
  "kernel_B = \<lparr>impl_mode = kTF, impl_N = 2, impl_M = 2, impl_S = 1, impl_all = False,
     impl_ngram_counts = [0, 0], impl_ngram_indexes = [0], impl_weights = [],
     impl_pool_strings = [], impl_str_set = [],
     impl_int_set = [\<lparr>item_id = 0, items = [1, 3]\<rparr>]\<rparr>"

text \<open>Two unigrams that share output slot 0.\<close>

definition shared_slot :: "real OpKernelInfo" where
  "shared_slot = \<lparr>attr_mode = Some ''TF'', attr_M = Some 1, attr_N = Some 1, attr_S = Some 0,
     attr_all = Some 0, attr_ngram_counts = Some [0], attr_ngram_indexes = Some [0, 0],
     attr_weights = None, attr_pool_strings = None, attr_pool_int64s = Some [5, 6]\<rparr>"

definition kernel_shared_slot :: "real Impl" where
  \<comment> \<open>what \<open>Ngram shared_slot\<close> constructs\<close>
  "kernel_shared_slot = \<lparr>impl_mode = kTF, impl_N = 1, impl_M = 1, impl_S = 0, impl_all = False,
     impl_ngram_counts = [0], impl_ngram_indexes = [0, 0], impl_weights = [],
     impl_pool_strings = [], impl_str_set = [],
     impl_int_set = [\<lparr>item_id = 0, items = [5]\<rparr>, \<lparr>item_id = 1, items = [6]\<rparr>]\<rparr>"

section \<open>Duplicate chunks, as the specification words them\<close>

text \<open>
  The segment of length \<open>L = i + 1\<close> starts at \<open>lengthOffsets[i]\<close> and ends at the next
  offset, or at the end of the pool for the last length; its \<open>j\<close>-th chunk is the \<open>L\<close>
  tokens from \<open>start + j * L\<close>. The pool has a duplicate when two chunks that lie within
  one segment have the same content.
\<close>

definition segment_start :: "int list \<Rightarrow> nat \<Rightarrow> nat" where
  "segment_start counts i = to_size_t (counts ! i)"

definition segment_end :: "int list \<Rightarrow> 'a list \<Rightarrow> nat \<Rightarrow> nat" where
  "segment_end counts pool i =
     (if i + 1 < length counts then to_size_t (counts ! (i + 1)) else length pool)"

definition spec_chunk :: "int list \<Rightarrow> 'a list \<Rightarrow> nat \<Rightarrow> nat \<Rightarrow> 'a list" where
  "spec_chunk counts pool i j = take (i + 1) (drop (segment_start counts i + j * (i + 1)) pool)"

definition spec_duplicate_at :: "int list \<Rightarrow> 'a list \<Rightarrow> nat \<Rightarrow> nat \<Rightarrow> nat \<Rightarrow> bool" where
  "spec_duplicate_at counts pool i j k \<longleftrightarrow>
     i < length counts \<and> j < k
     \<and> segment_start counts i + (k + 1) * (i + 1) \<le> segment_end counts pool i
     \<and> spec_chunk counts pool i j = spec_chunk counts pool i k"

definition scenario_E :: "real OpKernelInfo" where
  \<comment> \<open>Scenario E: the bigram \<open>(1, 3)\<close> twice in the segment of length 2\<close>
  "scenario_E = \<lparr>attr_mode = Some ''TF'', attr_M = Some 2, attr_N = Some 2, attr_S = Some 0,
     attr_all = Some 0, attr_ngram_counts = Some [0, 0], attr_ngram_indexes = Some [0, 1],
     attr_weights = None, attr_pool_strings = None, attr_pool_int64s = Some [1, 3, 1, 3]\<rparr>"

section \<open>Token keys are compared by content\<close>

text \<open>The loops are unfolded one step at a time, at the arguments named.\<close>

declare pool_loop.simps [simp del] unigram_loop.simps [simp del] collect.simps [simp del]
  window_loop.simps [simp del] stride_loop.simps [simp del] length_loop.simps [simp del]

lemma std_equal_iff: "std_equal xs ys \<longleftrightarrow> xs = ys"
  by (induction xs ys rule: std_equal.induct) auto

lemma NGramItem_int64_eq_iff: "NGramItem_int64_eq a b \<longleftrightarrow> items a = items b"
  by (auto simp: NGramItem_int64_eq_def vector_eq_def std_equal_iff)

lemma NGramItem_string_eq_iff: "NGramItem_string_eq a b \<longleftrightarrow> items a = items b"
  by (auto simp: NGramItem_string_eq_def std_equal_iff)

text \<open>
  Equal keys hash alike whatever \<open>std::hash\<close> is, which is what lets the unordered set
  be read as a collection of keys looked up by equality alone.
\<close>

lemma NGramItem_hash_cong: "items a = items b \<Longrightarrow> NGramItem_hash hf a = NGramItem_hash hf b"
  by (simp add: NGramItem_hash_def)

text \<open>
  C8, as amended. The two \<open>operator==\<close> compare the token sequences and nothing else:
  two keys are equal iff they have the same length and the same token at every position.
  Reversing the tokens of a key gives a different key exactly when the reversed sequence
  differs from the sequence, that is for every window that is not a palindrome.
\<close>

theorem C8_key_equality:
  "(NGramItem_int64_eq a b \<longleftrightarrow>
      length (items a) = length (items b) \<and> (\<forall>i<length (items a). items a ! i = items b ! i))
   \<and> (NGramItem_string_eq c d \<longleftrightarrow>
      length (items c) = length (items d) \<and> (\<forall>i<length (items c). items c ! i = items d ! i))
   \<and> (rev (items a) \<noteq> items a \<longrightarrow> \<not> NGramItem_int64_eq (a\<lparr>items := rev (items a)\<rparr>) a)
   \<and> (rev (items c) \<noteq> items c \<longrightarrow> \<not> NGramItem_string_eq (c\<lparr>items := rev (items c)\<rparr>) c)"
  by (simp add: NGramItem_int64_eq_iff NGramItem_string_eq_iff list_eq_iff_nth_eq)

theorem C8_key_equality_witness:
  "rev [1, 2 :: int64] \<noteq> [1, 2]
   \<and> \<not> NGramItem_int64_eq \<lparr>item_id = 0, items = [2, 1]\<rparr> \<lparr>item_id = 0, items = [1, 2]\<rparr>
   \<and> rev [''a'', ''b''] \<noteq> [''a'', ''b'']
   \<and> \<not> NGramItem_string_eq \<lparr>item_id = 0, items = [''b'', ''a'']\<rparr>
         \<lparr>item_id = 0, items = [''a'', ''b'']\<rparr>"
  using C8_key_equality [of "\<lparr>item_id = 0, items = [1, 2]\<rparr>" _
                            "\<lparr>item_id = 0, items = [''a'', ''b'']\<rparr>"]
  by simp

text \<open>
  C8 as stated fails on a palindrome: the bigram \<open>(1, 1)\<close> has length 2, and the key
  with its tokens reversed is equal to it.
\<close>

theorem C8_palindrome_counterexample:
  "length [1, 1 :: int64] > 1
   \<and> NGramItem_int64_eq (\<lparr>item_id = 0, items = [1, 1]\<rparr>\<lparr>items := rev [1, 1]\<rparr>)
        \<lparr>item_id = 0, items = [1, 1]\<rparr>"
  by (simp add: NGramItem_int64_eq_def vector_eq_def)

section \<open>Construction\<close>

text \<open>
  C1. The constructor is run on a configuration whose only irregular field is
  \<open>S = -1\<close>: unigram pool \<open>[5]\<close>, \<open>M = N = 1\<close>, mode TF. Line 286 tests \<open>N_ >= 0\<close>
  under the message "Non-negative number of skips S is required", so the negative skip
  count passes and is stored.
\<close>

theorem C1_negative_skip_accepted:
  "(case Ngram \<lparr>attr_mode = Some ''TF'', attr_M = Some 1, attr_N = Some 1, attr_S = Some (- 1),
       attr_all = Some 0, attr_ngram_counts = Some [0], attr_ngram_indexes = Some [0],
       attr_weights = None, attr_pool_strings = None, attr_pool_int64s = Some [5]\<rparr> of
      Inl e \<Rightarrow> False
    | Inr impl \<Rightarrow> impl_S impl = - 1 \<and> impl_S impl < 0)"
  by code_simp

lemma Ngram_attrs_pools:
  assumes "Ngram_attrs info = Inr (impl, pool_int64s)"
  shows "(\<exists>p. attr_pool_strings info = Some p \<and> p \<noteq> [] \<and> impl_pool_strings impl = p
              \<and> pool_int64s = [])
         \<or> (attr_pool_strings info = None \<and> impl_pool_strings impl = []
              \<and> attr_pool_int64s info = Some pool_int64s \<and> pool_int64s \<noteq> [])"
  using assms
  by (auto simp add: Ngram_attrs_def Let_def split: if_splits option.splits)

lemma Ngram_attrs_fields:
  assumes "Ngram_attrs info = Inr (impl, pool_int64s)"
  shows "impl_mode impl \<noteq> kNone" "0 < impl_M impl" "impl_M impl \<le> impl_N impl"
    "attr_S info = Some (impl_S impl)"
    "attr_ngram_counts info = Some (impl_ngram_counts impl)" "impl_ngram_counts impl \<noteq> []"
    "attr_ngram_indexes info = Some (impl_ngram_indexes impl)" "impl_ngram_indexes impl \<noteq> []"
    "impl_weights impl = [] \<or> length (impl_weights impl) = length (impl_ngram_indexes impl)"
    "impl_str_set impl = []" "impl_int_set impl = []"
  using assms
  by (auto simp add: Ngram_attrs_def Let_def split: if_splits option.splits)

lemma Ngram_attrs_fails:
  "attr_pool_strings info = None \<Longrightarrow> attr_pool_int64s info = None \<or> attr_pool_int64s info = Some []
     \<Longrightarrow> \<exists>e. Ngram_attrs info = Inl e"
  "attr_pool_strings info = Some [] \<Longrightarrow> \<exists>e. Ngram_attrs info = Inl e"
  by (auto simp add: Ngram_attrs_def Let_def)

lemma Ngram_attrs_ignores_int64s:
  "attr_pool_strings info \<noteq> None \<Longrightarrow>
     Ngram_attrs (info\<lparr>attr_pool_int64s := ip\<rparr>) = Ngram_attrs info"
  by (simp add: Ngram_attrs_def Let_def)

lemma Ngram_InrD:
  assumes "Ngram info = Inr impl"
  shows "\<exists>impl0 pool. Ngram_attrs info = Inr (impl0, pool)
           \<and> (if impl_pool_strings impl0 = [] then
                 \<exists>c. pool_loop NGramItem_int64_eq (impl_ngram_counts impl0) pool 0 0 1 [] = Inr c
                   \<and> length c = length (impl_ngram_indexes impl0)
                   \<and> impl = impl0\<lparr>impl_int_set := c\<rparr>
               else
                 \<exists>c. pool_loop NGramItem_string_eq (impl_ngram_counts impl0)
                        (impl_pool_strings impl0) 0 0 1 [] = Inr c
                   \<and> length (impl_pool_strings impl0) = length (impl_ngram_indexes impl0)
                   \<and> impl = impl0\<lparr>impl_str_set := c\<rparr>)"
proof (cases "Ngram_attrs info")
  case (Inl e)
  with assms show ?thesis by (simp add: Ngram_def)
next
  case (Inr r)
  obtain impl0 pool where r: "r = (impl0, pool)" by (cases r)
  have s: "impl_str_set impl0 = []" "impl_int_set impl0 = []"
    using Ngram_attrs_fields(10,11) Inr r by blast+
  from assms Inr r s show ?thesis
    by (auto simp: Ngram_def split: sum.splits if_splits)
qed

text \<open>
  C3, as amended. Construction fails when neither pool is supplied, when
  \<open>pool_strings\<close> is supplied empty, and when \<open>pool_strings\<close> is absent and
  \<open>pool_int64s\<close> is empty. When \<open>pool_strings\<close> is supplied, \<open>pool_int64s\<close> is never
  read: the result is the same whatever it holds, so supplying both is not an error. A
  constructed kernel has a non-empty string pool, or no string pool and a non-empty
  integer pool.
\<close>

theorem C3_pool_selection:
  "(attr_pool_strings info = None
      \<and> (attr_pool_int64s info = None \<or> attr_pool_int64s info = Some [])
      \<longrightarrow> (\<exists>e. Ngram info = Inl e))
   \<and> (attr_pool_strings info = Some [] \<longrightarrow> (\<exists>e. Ngram info = Inl e))
   \<and> (attr_pool_strings info \<noteq> None \<longrightarrow> Ngram (info\<lparr>attr_pool_int64s := ip\<rparr>) = Ngram info)
   \<and> (Ngram info = Inr impl \<longrightarrow>
        (\<exists>p. p \<noteq> [] \<and> attr_pool_strings info = Some p \<and> impl_pool_strings impl = p
              \<and> impl_int_set impl = [])
        \<or> (attr_pool_strings info = None \<and> (\<exists>p. p \<noteq> [] \<and> attr_pool_int64s info = Some p)
              \<and> impl_pool_strings impl = [] \<and> impl_str_set impl = []))"
proof (intro conjI impI)
  assume "attr_pool_strings info = None
      \<and> (attr_pool_int64s info = None \<or> attr_pool_int64s info = Some [])"
  then obtain e where "Ngram_attrs info = Inl e" using Ngram_attrs_fails(1) by blast
  then show "\<exists>e. Ngram info = Inl e" by (simp add: Ngram_def)
next
  assume "attr_pool_strings info = Some []"
  then obtain e where "Ngram_attrs info = Inl e" using Ngram_attrs_fails(2) by blast
  then show "\<exists>e. Ngram info = Inl e" by (simp add: Ngram_def)
next
  assume "attr_pool_strings info \<noteq> None"
  then show "Ngram (info\<lparr>attr_pool_int64s := ip\<rparr>) = Ngram info"
    by (simp add: Ngram_def Ngram_attrs_ignores_int64s)
next
  assume ok: "Ngram info = Inr impl"
  from Ngram_InrD [OF ok] obtain impl0 pool where a: "Ngram_attrs info = Inr (impl0, pool)"
    and b: "if impl_pool_strings impl0 = [] then
                 \<exists>c. pool_loop NGramItem_int64_eq (impl_ngram_counts impl0) pool 0 0 1 [] = Inr c
                   \<and> length c = length (impl_ngram_indexes impl0)
                   \<and> impl = impl0\<lparr>impl_int_set := c\<rparr>
               else
                 \<exists>c. pool_loop NGramItem_string_eq (impl_ngram_counts impl0)
                        (impl_pool_strings impl0) 0 0 1 [] = Inr c
                   \<and> length (impl_pool_strings impl0) = length (impl_ngram_indexes impl0)
                   \<and> impl = impl0\<lparr>impl_str_set := c\<rparr>"
    by blast
  have e: "impl_str_set impl0 = []" "impl_int_set impl0 = []"
    using Ngram_attrs_fields(10,11) a by blast+
  from b e Ngram_attrs_pools [OF a]
  show "(\<exists>p. p \<noteq> [] \<and> attr_pool_strings info = Some p \<and> impl_pool_strings impl = p
              \<and> impl_int_set impl = [])
        \<or> (attr_pool_strings info = None \<and> (\<exists>p. p \<noteq> [] \<and> attr_pool_int64s info = Some p)
              \<and> impl_pool_strings impl = [] \<and> impl_str_set impl = [])"
    by (cases "impl_pool_strings impl0 = []") auto
qed

text \<open>
  C3 as stated fails where both pools are supplied: with \<open>pool_strings = ["a"]\<close> and
  \<open>pool_int64s = [5]\<close> construction succeeds, on the string pool.
\<close>

theorem C3_both_pools_counterexample:
  "(case Ngram \<lparr>attr_mode = Some ''TF'', attr_M = Some 1, attr_N = Some 1, attr_S = Some 0,
       attr_all = Some 0, attr_ngram_counts = Some [0], attr_ngram_indexes = Some [0],
       attr_weights = None, attr_pool_strings = Some [''a''], attr_pool_int64s = Some [5]\<rparr> of
      Inl e \<Rightarrow> False
    | Inr impl \<Rightarrow> length (impl_str_set impl) = 1 \<and> impl_int_set impl = [])"
  by code_simp

text \<open>
  C2. For a string pool line 345 compares \<open>pool_strings_.size()\<close>, the number of
  tokens, with \<open>ngram_indexes_.size()\<close>, where the integer branch (line 342) compares
  the number of entries \<open>int_set_.size()\<close>. With the one bigram \<open>("a", "b")\<close> and two
  output slots construction succeeds with a dictionary of 1 entry for 2 slots; with the
  matching single slot it is refused.
\<close>

theorem C2_string_pool_size_check:
  "(case Ngram \<lparr>attr_mode = Some ''TF'', attr_M = Some 2, attr_N = Some 2, attr_S = Some 0,
       attr_all = Some 0, attr_ngram_counts = Some [0, 0], attr_ngram_indexes = Some [0, 1],
       attr_weights = None, attr_pool_strings = Some [''a'', ''b''], attr_pool_int64s = None\<rparr> of
      Inl e \<Rightarrow> False
    | Inr impl \<Rightarrow> GetPoolSize_string impl = 1 \<and> length (impl_ngram_indexes impl) = 2)
   \<and> (case Ngram \<lparr>attr_mode = Some ''TF'', attr_M = Some 2, attr_N = Some 2, attr_S = Some 0,
       attr_all = Some 0, attr_ngram_counts = Some [0, 0], attr_ngram_indexes = Some [0],
       attr_weights = None, attr_pool_strings = Some [''a'', ''b''], attr_pool_int64s = None\<rparr> of
      Inl e \<Rightarrow> e = PoolIndexesMismatch
    | Inr impl \<Rightarrow> False)"
  by code_simp

text \<open>The witness of C3: the four situations at concrete attributes.\<close>

theorem C3_pool_selection_witness:
  "(\<exists>e. Ngram \<lparr>attr_mode = Some ''TF'', attr_M = Some 1, attr_N = Some 1, attr_S = Some 0,
       attr_all = Some 0, attr_ngram_counts = Some [0], attr_ngram_indexes = Some [0],
       attr_weights = None, attr_pool_strings = None, attr_pool_int64s = None\<rparr> = Inl e)
   \<and> (\<exists>e. Ngram \<lparr>attr_mode = Some ''TF'', attr_M = Some 1, attr_N = Some 1, attr_S = Some 0,
       attr_all = Some 0, attr_ngram_counts = Some [0], attr_ngram_indexes = Some [0],
       attr_weights = None, attr_pool_strings = Some [], attr_pool_int64s = Some [5]\<rparr> = Inl e)
   \<and> Ngram \<lparr>attr_mode = Some ''TF'', attr_M = Some 1, attr_N = Some 1, attr_S = Some 0,
       attr_all = Some 0, attr_ngram_counts = Some [0], attr_ngram_indexes = Some [0],
       attr_weights = None, attr_pool_strings = Some [''a''], attr_pool_int64s = Some [5]\<rparr>
     = Ngram \<lparr>attr_mode = Some ''TF'', attr_M = Some 1, attr_N = Some 1, attr_S = Some 0,
       attr_all = Some 0, attr_ngram_counts = Some [0], attr_ngram_indexes = Some [0],
       attr_weights = None, attr_pool_strings = Some [''a''], attr_pool_int64s = None\<rparr>
   \<and> (case Ngram (\<lparr>attr_mode = Some ''TF'', attr_M = Some 1, attr_N = Some 1,
          attr_S = Some 0, attr_all = Some 0, attr_ngram_counts = Some [0],
          attr_ngram_indexes = Some [0], attr_weights = None, attr_pool_strings = None,
          attr_pool_int64s = Some [5]\<rparr> :: real OpKernelInfo) of
         Inl e \<Rightarrow> False
       | Inr impl \<Rightarrow> impl_pool_strings impl = [] \<and> impl_str_set impl = [])"
proof (intro conjI)
  have "Ngram (\<lparr>attr_mode = Some ''TF'', attr_M = Some 1, attr_N = Some 1, attr_S = Some 0,
          attr_all = Some 0, attr_ngram_counts = Some [0], attr_ngram_indexes = Some [0],
          attr_weights = None, attr_pool_strings = None, attr_pool_int64s = Some [5]\<rparr>
          :: real OpKernelInfo)
        = Inr \<lparr>impl_mode = kTF, impl_N = 1, impl_M = 1, impl_S = 0, impl_all = False,
            impl_ngram_counts = [0], impl_ngram_indexes = [0], impl_weights = [],
            impl_pool_strings = [], impl_str_set = [],
            impl_int_set = [\<lparr>item_id = 0, items = [5]\<rparr>]\<rparr>" (is "?n = Inr ?impl")
    by code_simp
  then have ok: "?n = Inr ?impl" .
  have "impl_pool_strings ?impl = [] \<and> impl_str_set ?impl = []"
    using ok C3_pool_selection [of "\<lparr>attr_mode = Some ''TF'', attr_M = Some 1, attr_N = Some 1,
       attr_S = Some 0, attr_all = Some 0, attr_ngram_counts = Some [0],
       attr_ngram_indexes = Some [0], attr_weights = None, attr_pool_strings = None,
       attr_pool_int64s = Some [5]\<rparr>" None ?impl]
    by simp
  with ok show "case ?n of Inl e \<Rightarrow> False
       | Inr impl \<Rightarrow> impl_pool_strings impl = [] \<and> impl_str_set impl = []"
    by simp
next
  show "\<exists>e. Ngram \<lparr>attr_mode = Some ''TF'', attr_M = Some 1, attr_N = Some 1, attr_S = Some 0,
       attr_all = Some 0, attr_ngram_counts = Some [0], attr_ngram_indexes = Some [0],
       attr_weights = None, attr_pool_strings = None, attr_pool_int64s = None\<rparr> = Inl e"
    using C3_pool_selection [of "\<lparr>attr_mode = Some ''TF'', attr_M = Some 1, attr_N = Some 1,
       attr_S = Some 0, attr_all = Some 0, attr_ngram_counts = Some [0],
       attr_ngram_indexes = Some [0], attr_weights = None, attr_pool_strings = None,
       attr_pool_int64s = None\<rparr>" None undefined, THEN conjunct1]
    by simp
  show "\<exists>e. Ngram \<lparr>attr_mode = Some ''TF'', attr_M = Some 1, attr_N = Some 1, attr_S = Some 0,
       attr_all = Some 0, attr_ngram_counts = Some [0], attr_ngram_indexes = Some [0],
       attr_weights = None, attr_pool_strings = Some [], attr_pool_int64s = Some [5]\<rparr> = Inl e"
    using C3_pool_selection [of "\<lparr>attr_mode = Some ''TF'', attr_M = Some 1, attr_N = Some 1,
       attr_S = Some 0, attr_all = Some 0, attr_ngram_counts = Some [0],
       attr_ngram_indexes = Some [0], attr_weights = None, attr_pool_strings = Some [],
       attr_pool_int64s = Some [5]\<rparr>" None undefined, THEN conjunct2, THEN conjunct1]
    by simp
  show "Ngram \<lparr>attr_mode = Some ''TF'', attr_M = Some 1, attr_N = Some 1, attr_S = Some 0,
       attr_all = Some 0, attr_ngram_counts = Some [0], attr_ngram_indexes = Some [0],
       attr_weights = None, attr_pool_strings = Some [''a''], attr_pool_int64s = Some [5]\<rparr>
     = Ngram \<lparr>attr_mode = Some ''TF'', attr_M = Some 1, attr_N = Some 1, attr_S = Some 0,
       attr_all = Some 0, attr_ngram_counts = Some [0], attr_ngram_indexes = Some [0],
       attr_weights = None, attr_pool_strings = Some [''a''], attr_pool_int64s = None\<rparr>"
    using C3_pool_selection [of "\<lparr>attr_mode = Some ''TF'', attr_M = Some 1, attr_N = Some 1,
       attr_S = Some 0, attr_all = Some 0, attr_ngram_counts = Some [0],
       attr_ngram_indexes = Some [0], attr_weights = None, attr_pool_strings = Some [''a''],
       attr_pool_int64s = None\<rparr>" "Some [5]" undefined, THEN conjunct2, THEN conjunct2,
       THEN conjunct1]
    by simp
qed


section \<open>Output encoding\<close>

text \<open>
  C5. The encoder, row by row of the table: TF gives the count; IDF gives the weight (or
  \<open>1.0\<close> without weights) where the count is positive and 0 elsewhere; TFIDF gives count
  times weight, and the count when there are no weights. IDF and TFIDF are separate
  cases of the \<open>switch\<close>.
\<close>

theorem C5_output_encoding:
  "(impl_mode impl = kTF \<longrightarrow>
      (\<exists>out. OutputResult fl impl fr = Inr out \<and> length out = length fr
         \<and> (\<forall>i<length fr. out ! i = float_of_uint32 fl (fr ! i))))
   \<and> (impl_mode impl = kIDF \<and> impl_weights impl \<noteq> []
        \<and> length (impl_weights impl) = length fr \<longrightarrow>
      (\<exists>out. OutputResult fl impl fr = Inr out \<and> length out = length fr
         \<and> (\<forall>i<length fr. out ! i = (if fr ! i > 0 then impl_weights impl ! i
                                         else float_zero fl))))
   \<and> (impl_mode impl = kIDF \<and> impl_weights impl = [] \<longrightarrow>
      (\<exists>out. OutputResult fl impl fr = Inr out \<and> length out = length fr
         \<and> (\<forall>i<length fr. out ! i = (if fr ! i > 0 then float_one fl else float_zero fl))))
   \<and> (impl_mode impl = kTFIDF \<and> impl_weights impl \<noteq> []
        \<and> length (impl_weights impl) = length fr \<longrightarrow>
      (\<exists>out. OutputResult fl impl fr = Inr out \<and> length out = length fr
         \<and> (\<forall>i<length fr. out ! i = float_mul fl (float_of_uint32 fl (fr ! i))
                                          (impl_weights impl ! i))))
   \<and> (impl_mode impl = kTFIDF \<and> impl_weights impl = [] \<longrightarrow>
      (\<exists>out. OutputResult fl impl fr = Inr out \<and> length out = length fr
         \<and> (\<forall>i<length fr. out ! i = float_of_uint32 fl (fr ! i))))"
  by (simp add: OutputResult_def)

text \<open>The witness of C5: Scenario D (IDF, no weights) and Scenario C's encoding step.\<close>

theorem C5_output_encoding_witness:
  "OutputResult ideal_float
     \<lparr>impl_mode = kIDF, impl_N = 1, impl_M = 1, impl_S = 0, impl_all = False,
      impl_ngram_counts = [0], impl_ngram_indexes = [0, 1], impl_weights = [],
      impl_pool_strings = [], impl_str_set = [], impl_int_set = []\<rparr> [0, 3] = Inr [0, 1]
   \<and> OutputResult ideal_float
     \<lparr>impl_mode = kTFIDF, impl_N = 2, impl_M = 2, impl_S = 1, impl_all = False,
      impl_ngram_counts = [0, 0], impl_ngram_indexes = [0], impl_weights = [2],
      impl_pool_strings = [], impl_str_set = [], impl_int_set = []\<rparr> [1] = Inr [2]"
proof (intro conjI)
  obtain out where o: "OutputResult ideal_float
     \<lparr>impl_mode = kIDF, impl_N = 1, impl_M = 1, impl_S = 0, impl_all = False,
      impl_ngram_counts = [0], impl_ngram_indexes = [0, 1], impl_weights = [],
      impl_pool_strings = [], impl_str_set = [], impl_int_set = []\<rparr> [0, 3] = Inr out"
    and l: "length out = 2" and v: "\<forall>i<2. out ! i = (if [0, 3 :: uint32] ! i > 0 then 1 else 0)"
    using C5_output_encoding [of "\<lparr>impl_mode = kIDF, impl_N = 1, impl_M = 1, impl_S = 0,
      impl_all = False, impl_ngram_counts = [0], impl_ngram_indexes = [0, 1], impl_weights = [],
      impl_pool_strings = [], impl_str_set = [], impl_int_set = []\<rparr>" ideal_float "[0, 3]",
      THEN conjunct2, THEN conjunct2, THEN conjunct1]
    by (auto simp: ideal_float_def)
  from v have "out ! 0 = 0" "out ! 1 = 1" by simp_all
  with l have "out = [0, 1]" by (simp add: list_eq_iff_nth_eq  less_Suc_eq numeral_2_eq_2)
  with o show "OutputResult ideal_float
     \<lparr>impl_mode = kIDF, impl_N = 1, impl_M = 1, impl_S = 0, impl_all = False,
      impl_ngram_counts = [0], impl_ngram_indexes = [0, 1], impl_weights = [],
      impl_pool_strings = [], impl_str_set = [], impl_int_set = []\<rparr> [0, 3] = Inr [0, 1]"
    by simp
next
  obtain out where o: "OutputResult ideal_float
     \<lparr>impl_mode = kTFIDF, impl_N = 2, impl_M = 2, impl_S = 1, impl_all = False,
      impl_ngram_counts = [0, 0], impl_ngram_indexes = [0], impl_weights = [2],
      impl_pool_strings = [], impl_str_set = [], impl_int_set = []\<rparr> [1] = Inr out"
    and l: "length out = 1" and v: "\<forall>i<1. out ! i = real (unat ([1 :: uint32] ! i)) * ([2] ! i)"
    using C5_output_encoding [of "\<lparr>impl_mode = kTFIDF, impl_N = 2, impl_M = 2, impl_S = 1,
      impl_all = False, impl_ngram_counts = [0, 0], impl_ngram_indexes = [0], impl_weights = [2],
      impl_pool_strings = [], impl_str_set = [], impl_int_set = []\<rparr>" ideal_float "[1]",
      THEN conjunct2, THEN conjunct2, THEN conjunct2, THEN conjunct1]
    by (auto simp: ideal_float_def)
  from v have "out ! 0 = 2" by simp
  with l have "out = [2]" by (simp add: list_eq_iff_nth_eq)
  with o show "OutputResult ideal_float
     \<lparr>impl_mode = kTFIDF, impl_N = 2, impl_M = 2, impl_S = 1, impl_all = False,
      impl_ngram_counts = [0, 0], impl_ngram_indexes = [0], impl_weights = [2],
      impl_pool_strings = [], impl_str_set = [], impl_int_set = []\<rparr> [1] = Inr [2]"
    by simp
qed

section \<open>The loops of the extractor visit the windows of the specification\<close>

lemma record_hits_append:
  "record_hits impl Find (ws @ vs) fr =
     (case record_hits impl Find ws fr of
        Inl e \<Rightarrow> Inl e
      | Inr fr' \<Rightarrow> record_hits impl Find vs fr')"
  by (induction ws arbitrary: fr) (auto split: sum.splits)

lemma deref_in: "0 \<le> k \<Longrightarrow> nat k < length xs \<Longrightarrow> deref xs k = Inr (xs ! nat k)"
  by (simp add: deref_def)

lemma collect_window:
  assumes "0 < si" "0 \<le> p" "p + si * (int m - 1) + 1 \<le> int (length xs)"
    and "p + si * int m \<le> ptr_offset_max"
  shows "collect conv xs p (p + si * (int m - 1) + 1) si sample =
           Inr (sample\<lparr>items := items sample @ map (\<lambda>k. conv (xs ! (nat p + k * nat si))) [0..<m]\<rparr>)"
  using assms
proof (induction m arbitrary: p sample)
  case 0
  then show ?case by (subst collect.simps) simp
next
  case (Suc m)
  have e: "p + si * (int (Suc m) - 1) + 1 = (p + si) + si * (int m - 1) + 1"
    by (simp add: algebra_simps)
  have lt: "p < p + si * (int (Suc m) - 1) + 1"
    using Suc.prems(1) by simp
  have inb: "nat p < length xs"
    using Suc.prems lt by linarith
  have b: "(p + si) + si * int m \<le> ptr_offset_max"
    using Suc.prems(4) by (simp add: algebra_simps)
  have "0 \<le> si * int m"
    using Suc.prems(1) by simp
  with b Suc.prems(1,2) have ok: "ptr_ok (p + si)"
    unfolding ptr_ok_def by linarith
  have ih: "collect conv xs (p + si) ((p + si) + si * (int m - 1) + 1) si
              (AddItem (conv (xs ! nat p)) sample)
            = Inr ((AddItem (conv (xs ! nat p)) sample)\<lparr>items :=
                 items (AddItem (conv (xs ! nat p)) sample)
                 @ map (\<lambda>k. conv (xs ! (nat (p + si) + k * nat si))) [0..<m]\<rparr>)"
    using Suc.prems(1,2,3) e b by (intro Suc.IH) auto
  have n: "nat (p + si) = nat p + nat si"
    using Suc.prems by (simp add: nat_add_distrib)
  show ?case
    apply (subst collect.simps)
    apply (simp only: lt Suc.prems(1) deref_in [OF Suc.prems(2) inb] ok simp_thms if_True
             if_False sum.case)
    apply (simp only: e ih)
    apply (simp add: AddItem_def n map_upt_Suc add.assoc del: upt_Suc)
    done
qed

lemma window_guards:
  assumes "0 < si" "1 \<le> ni" "s < n" "int n + si * ni \<le> ptr_offset_max"
  shows "\<not> (ni - 1 < INT64_MIN \<or> \<not> int64_ok (si * (ni - 1)))"
    and "\<not> (\<not> ptr_ok (int s + si * (ni - 1)) \<or> \<not> ptr_ok (int s + si * (ni - 1) + 1))"
    and "int s + si * ni \<le> ptr_offset_max"
proof -
  have p: "0 \<le> si * (ni - 1)"
    using assms(1,2) by simp
  have "si * (ni - 1) \<le> si * ni"
    using assms(1) by (intro mult_left_mono) simp_all
  then have q: "int s + si * (ni - 1) + 1 \<le> int n + si * ni"
    using assms(3) by simp
  show "\<not> (ni - 1 < INT64_MIN \<or> \<not> int64_ok (si * (ni - 1)))"
    using assms(2,4) p q
    by (simp add: int64_ok_def INT64_MIN_def INT64_MAX_def ptr_offset_max_def)
  show "\<not> (\<not> ptr_ok (int s + si * (ni - 1)) \<or> \<not> ptr_ok (int s + si * (ni - 1) + 1))"
    using assms(4) p q by (simp add: ptr_ok_def)
  show "int s + si * ni \<le> ptr_offset_max"
    using assms(3,4) by simp
qed


lemma spec_window_in:
  assumes "spec_fits n stride len start" "n \<le> length xs"
  shows "spec_window (map conv (take n xs)) start stride len
           = map (\<lambda>k. conv (xs ! (start + k * stride))) [0..<len]"
proof -
  have "start + k * stride < n" if "k < len" for k
  proof -
    from that have "k \<le> len - 1" by simp
    then have "k * stride \<le> (len - 1) * stride" by (rule mult_le_mono1)
    then have "k * stride \<le> stride * (len - 1)" by (simp only: mult.commute)
    with assms(1) show ?thesis unfolding spec_fits_def by linarith
  qed
  with assms(2) show ?thesis by (simp add: spec_window_def)
qed

lemma window_loop_refines:
  assumes "0 < si" "1 \<le> ni" "n \<le> length xs" "s0 \<le> n"
    and "int n + si * ni \<le> ptr_offset_max"
  shows "window_loop impl Find conv xs (int n) ni si (int s0) fr =
           record_hits impl Find
             (map (\<lambda>s. spec_window (map conv (take n xs)) s (nat si) (nat ni))
                (filter (spec_fits n (nat si) (nat ni)) [s0..<n])) fr"
  using assms(4)
proof (induction "n - s0" arbitrary: s0 fr)
  case 0
  then show ?case by (subst window_loop.simps) simp
next
  case (Suc d)
  then have lt: "s0 < n" by simp
  define span where "span = nat si * (nat ni - 1) + 1"
  have span: "int s0 + si * (ni - 1) + 1 = int (s0 + span)"
    using assms(1,2) by (simp add: span_def nat_diff_distrib)
  have fits: "spec_fits n (nat si) (nat ni) s \<longleftrightarrow> s + span \<le> n" for s
    by (simp add: spec_fits_def span_def)
  note g = window_guards [OF assms(1,2) lt assms(5)]
  have u0: "window_loop impl Find conv xs (int n) ni si (int s0) fr =
              (if int (s0 + span) > int n then Inr fr
               else
                 case collect conv xs (int s0) (int (s0 + span)) si (Clear NGramItem_sample) of
                   Inl e \<Rightarrow> Inl e
                 | Inr sample \<Rightarrow>
                     (case record_hit impl Find sample fr of
                        Inl e \<Rightarrow> Inl e
                      | Inr fr' \<Rightarrow> window_loop impl Find conv xs (int n) ni si (int s0 + 1) fr'))"
    apply (subst window_loop.simps)
    apply (simp only: g(1,2) if_False)
    apply (simp only: Let_def span)
    using lt apply simp
    done
  show ?case
  proof (cases "s0 + span \<le> n")
    case False
    then have "filter (spec_fits n (nat si) (nat ni)) [s0..<n] = []"
      by (auto simp: filter_empty_conv fits)
    with False lt show ?thesis
      by (simp add: u0 del: of_nat_add)
  next
    case True
    have c: "collect conv xs (int s0) (int s0 + si * (int (nat ni) - 1) + 1) si
               (Clear NGramItem_sample)
             = Inr ((Clear NGramItem_sample)\<lparr>items := items (Clear NGramItem_sample)
                      @ map (\<lambda>k. conv (xs ! (nat (int s0) + k * nat si))) [0..<nat ni]\<rparr>)"
      using assms(1,2,3) True span g(3) by (intro collect_window) auto
    have w: "spec_window (map conv (take n xs)) s0 (nat si) (nat ni)
               = map (\<lambda>k. conv (xs ! (s0 + k * nat si))) [0..<nat ni]"
      using True assms(3) by (intro spec_window_in) (simp_all add: fits)
    have c': "collect conv xs (int s0) (int (s0 + span)) si (Clear NGramItem_sample)
               = Inr \<lparr>item_id = 0,
                       items = spec_window (map conv (take n xs)) s0 (nat si) (nat ni)\<rparr>"
      using c assms(2) span by (simp add: w Clear_def NGramItem_sample_def)
    have ih: "window_loop impl Find conv xs (int n) ni si (int s0 + 1) fr' =
           record_hits impl Find
             (map (\<lambda>s. spec_window (map conv (take n xs)) s (nat si) (nat ni))
                (filter (spec_fits n (nat si) (nat ni)) [Suc s0..<n])) fr'" for fr'
      using Suc.hyps(2) lt Suc.hyps(1) [of "Suc s0" fr'] by (simp add: add.commute)
    have u: "[s0..<n] = s0 # [Suc s0..<n]"
      using lt by (simp add: upt_conv_Cons)
    show ?thesis
      apply (simp only: u0 c')
      using True lt
      apply (simp add: u fits ih cong: sum.case_cong del: upt_Suc)
      done
  qed
qed


lemma stride_loop_refines:
  assumes "1 \<le> ni" "n \<le> length xs" "1 \<le> si"
    and "S < INT_MAX" and "S < 1 \<or> int n + S * ni \<le> ptr_offset_max"
  shows "stride_loop impl Find conv xs (int n) ni S si fr =
           record_hits impl Find
             (concat (map (\<lambda>stride. spec_windows_at (map conv (take n xs)) (nat ni) (nat stride))
                        [si..S])) fr"
  using assms(3)
proof (induction "nat (S + 1 - si)" arbitrary: si fr)
  case 0
  then have "\<not> si \<le> S" by simp
  then show ?case by (subst stride_loop.simps) simp
next
  case (Suc d)
  then have le: "si \<le> S" by simp
  have "si * ni \<le> S * ni"
    using le assms(1) by (intro mult_right_mono) simp_all
  with assms(5) le Suc.prems have b: "int n + si * ni \<le> ptr_offset_max"
    by linarith
  have o: "\<not> si + 1 > INT_MAX"
    using le assms(4) by simp
  have w: "window_loop impl Find conv xs (int n) ni si 0 fr =
             record_hits impl Find (spec_windows_at (map conv (take n xs)) (nat ni) (nat si)) fr"
    using window_loop_refines [of si ni n xs 0 impl Find conv fr] assms(1,2) Suc.prems b
    by (simp add: spec_windows_at_def spec_starts_def)
  have ih: "stride_loop impl Find conv xs (int n) ni S (si + 1) fr' =
           record_hits impl Find
             (concat (map (\<lambda>stride. spec_windows_at (map conv (take n xs)) (nat ni) (nat stride))
                        [si + 1..S])) fr'" for fr'
    using Suc.hyps(2) Suc.prems by (intro Suc.hyps(1)) auto
  show ?case
    apply (subst stride_loop.simps)
    apply (simp only: o if_False)
    apply (simp add: le w ih upto_rec1 [OF le] record_hits_append cong: sum.case_cong)
    done
qed

lemma unigram_loop_refines:
  assumes "n \<le> length xs" "s0 \<le> n"
  shows "unigram_loop impl Find conv xs (int n) (int s0) fr =
           record_hits impl Find (spec_unigrams (drop s0 (map conv (take n xs)))) fr"
  using assms(2)
proof (induction "n - s0" arbitrary: s0 fr)
  case 0
  then show ?case by (subst unigram_loop.simps) (simp add: spec_unigrams_def)
next
  case (Suc d)
  then have lt: "s0 < n" by simp
  have d: "deref xs (int s0) = Inr (xs ! s0)"
    using lt assms(1) by (simp add: deref_def)
  have u: "drop s0 (map conv (take n xs)) = conv (xs ! s0) # drop (Suc s0) (map conv (take n xs))"
    using lt assms(1) by (simp add: Cons_nth_drop_Suc [symmetric])
  have ih: "unigram_loop impl Find conv xs (int n) (int s0 + 1) fr' =
           record_hits impl Find (spec_unigrams (drop (Suc s0) (map conv (take n xs)))) fr'" for fr'
    using Suc.hyps(2) lt Suc.hyps(1) [of "Suc s0" fr'] by (simp add: add.commute)
  show ?case
    apply (subst unigram_loop.simps)
    apply (simp only: d u)
    using lt
    apply (simp add: ih AddItem_def Clear_def NGramItem_sample_def cong: sum.case_cong)
    apply (simp add: spec_unigrams_def cong: sum.case_cong)
    done
qed

lemma length_loop_refines:
  assumes "n \<le> length xs" "1 \<le> ni" and "counters_in_range skipCount N n"
  shows "length_loop impl Find conv xs (int n) N (skipCount + 1) ni fr =
           record_hits impl Find (spec_all_windows (map conv (take n xs)) ni N skipCount) fr"
  using assms(2)
proof (induction "nat (N + 1 - ni)" arbitrary: ni fr)
  case 0
  then have "\<not> ni \<le> N" by simp
  then show ?case by (subst length_loop.simps) (simp add: spec_all_windows_def)
next
  case (Suc d)
  then have le: "ni \<le> N" by simp
  have ih: "length_loop impl Find conv xs (int n) N (skipCount + 1) (ni + 1) fr' =
           record_hits impl Find (spec_all_windows (map conv (take n xs)) (ni + 1) N skipCount) fr'"
    for fr'
    using Suc.hyps(2) Suc.prems by (intro Suc.hyps(1)) auto
  have u: "unigram_loop impl Find conv xs (int n) 0 fr =
             record_hits impl Find (spec_unigrams (map conv (take n xs))) fr"
    using unigram_loop_refines [of n xs 0 impl Find conv fr] assms(1) by simp
  have "(skipCount + 1) * ni \<le> (skipCount + 1) * N" if "\<not> skipCount + 1 < 1"
    using le that by (intro mult_left_mono) simp_all
  with assms(3)
  have b: "skipCount + 1 < 1 \<or> int n + (skipCount + 1) * ni \<le> ptr_offset_max"
    unfolding counters_in_range_def by linarith
  have o: "\<not> ni + 1 > INT64_MAX"
    using le assms(3) by (simp add: counters_in_range_def)
  have s: "stride_loop impl Find conv xs (int n) ni (skipCount + 1) 1 fr =
             record_hits impl Find (spec_skip_windows (map conv (take n xs)) (nat ni) skipCount) fr"
    using stride_loop_refines [of ni n xs 1 "skipCount + 1" impl Find conv fr] assms(1,3)
      Suc.prems b
    by (simp add: spec_skip_windows_def counters_in_range_def)
  have a: "spec_all_windows (map conv (take n xs)) ni N skipCount =
             (if ni = 1 then spec_unigrams (map conv (take n xs))
              else spec_skip_windows (map conv (take n xs)) (nat ni) skipCount)
             @ spec_all_windows (map conv (take n xs)) (ni + 1) N skipCount"
    by (simp add: spec_all_windows_def upto_rec1 [OF le])
  show ?case
    apply (subst length_loop.simps)
    apply (simp only: a record_hits_append o if_False)
    apply (simp add: le u s ih cong: sum.case_cong)
    done
qed

lemma count_ngrams_refines:
  assumes "total_items \<le> length input_data" "0 < impl_M impl" "impl_M impl \<le> impl_N impl"
    and "counters_in_range (impl_S impl) (impl_N impl) total_items"
  shows "count_ngrams impl Find pool_size conv input_data total_items =
           record_hits impl Find
             (spec_all_windows (map conv (take total_items input_data))
                (if impl_all impl then impl_M impl else impl_N impl) (impl_N impl) (impl_S impl))
             (replicate pool_size 0)"
proof -
  have "\<not> impl_S impl + 1 > INT64_MAX"
    using assms(4) by (simp add: counters_in_range_def INT_MAX_def INT64_MAX_def)
  with assms show ?thesis
    by (simp add: count_ngrams_def Let_def length_loop_refines)
qed



lemma Ngram_scenario_A: "Ngram scenario_A = Inr kernel_A"
  by code_simp

lemma Ngram_scenario_B: "Ngram scenario_B = Inr kernel_B"
  by code_simp

lemma record_hits_all_miss:
  "(\<forall>w\<in>set ws. Find \<lparr>item_id = 0, items = w\<rparr> = None) \<Longrightarrow> record_hits impl Find ws fr = Inr fr"
  by (induction ws) (simp_all add: record_hit_def)

text \<open>
  Where the bound on the distance fails the loop does not come to an end: with
  \<open>S_ + 1\<close> at or above \<open>INT_MAX\<close> the counter \<open>si\<close> reaches \<open>INT_MAX\<close> and \<open>++si\<close>
  overflows, unless a window stopped the run before.
\<close>

lemma stride_loop_overflows:
  assumes "INT_MAX \<le> S" "si \<le> INT_MAX"
  shows "\<exists>e. stride_loop impl Find conv xs ed ni S si fr = Inl e"
  using assms(2)
proof (induction "nat (INT_MAX - si)" arbitrary: si fr)
  case 0
  then have "si = INT_MAX" by simp
  with assms(1) show ?case
    by (subst stride_loop.simps) (simp split: sum.splits)
next
  case (Suc d)
  then have lt: "si < INT_MAX" by simp
  have ih: "\<exists>e. stride_loop impl Find conv xs ed ni S (si + 1) fr' = Inl e" for fr'
    using Suc.hyps(2) lt by (intro Suc.hyps(1)) auto
  from lt assms(1) have le: "si \<le> S" by simp
  show ?case
  proof (cases "window_loop impl Find conv xs ed ni si 0 fr")
    case (Inl err)
    with le show ?thesis by (subst stride_loop.simps) simp
  next
    case (Inr fr')
    with le lt ih [of fr'] show ?thesis by (subst stride_loop.simps) simp
  qed
qed



text \<open>
  C9. A tensor of an element type other than \<open>int32\<close>, \<open>int64\<close> and string makes
  \<open>Compute\<close> return \<open>INVALID_ARGUMENT\<close> with the context as it was: no output is
  written, and the kernel, which \<open>Compute\<close> only reads, is not part of what a call can
  change. A probe that misses leaves the frequencies as they are and raises nothing, and
  a call all of whose probes miss ends with all counts zero, in the runs in which no
  counter and no pointer offset leaves its range (\<open>counters_in_range\<close>).
\<close>

theorem C9_invalid_type_and_misses:
  "(tensor_data (ctx_input ctx) = OtherData k \<longrightarrow>
      Compute fl impl ctx = Inr (INVALID_ARGUMENT, ctx))
   \<and> (Find sample = None \<longrightarrow> record_hit impl Find sample fr = Inr fr)
   \<and> (total_items \<le> length input_data \<and> 0 < impl_M impl \<and> impl_M impl \<le> impl_N impl
        \<and> counters_in_range (impl_S impl) (impl_N impl) total_items
        \<and> (\<forall>w\<in>set (spec_all_windows (map conv (take total_items input_data))
                       (if impl_all impl then impl_M impl else impl_N impl) (impl_N impl)
                       (impl_S impl)).
              Find \<lparr>item_id = 0, items = w\<rparr> = None)
      \<longrightarrow> count_ngrams impl Find pool_size conv input_data total_items
            = Inr (replicate pool_size 0))"
  by (simp add: Compute_def record_hit_def count_ngrams_refines record_hits_all_miss)

text \<open>
  The witness of C9: a tensor of an unsupported type offered to the kernel of Scenario A,
  a probe of that kernel with the token 9, and the input \<open>[9, 8]\<close>, none of whose
  unigrams is in the dictionary \<open>{5, 6, 7}\<close>.
\<close>

theorem C9_invalid_type_and_misses_witness:
  "Compute ideal_float kernel_A
      \<lparr>ctx_input = \<lparr>tensor_dims = [2], tensor_data = OtherData 0\<rparr>, ctx_output = None\<rparr>
     = Inr (INVALID_ARGUMENT,
            \<lparr>ctx_input = \<lparr>tensor_dims = [2], tensor_data = OtherData 0\<rparr>, ctx_output = None\<rparr>)
   \<and> record_hit kernel_A (Find_int64 kernel_A) \<lparr>item_id = 0, items = [9]\<rparr>
        [0, 0, 0] = Inr [0, 0, 0]
   \<and> count_ngrams kernel_A (Find_int64 kernel_A) 3 (\<lambda>t. t) [9, 8] 2
        = Inr [0, 0, 0]"
proof (intro conjI)
  show "Compute ideal_float kernel_A
      \<lparr>ctx_input = \<lparr>tensor_dims = [2], tensor_data = OtherData 0\<rparr>, ctx_output = None\<rparr>
     = Inr (INVALID_ARGUMENT,
            \<lparr>ctx_input = \<lparr>tensor_dims = [2], tensor_data = OtherData 0\<rparr>, ctx_output = None\<rparr>)"
    using C9_invalid_type_and_misses [of "\<lparr>ctx_input = \<lparr>tensor_dims = [2],
            tensor_data = OtherData 0\<rparr>, ctx_output = None\<rparr>" 0 ideal_float kernel_A,
            THEN conjunct1]
    by simp
next
  have m: "Find_int64 kernel_A \<lparr>item_id = 0, items = [9]\<rparr> = None"
    by code_simp
  from C9_invalid_type_and_misses [where Find = "Find_int64 kernel_A"
         and sample = "\<lparr>item_id = 0, items = [9]\<rparr>" and impl = kernel_A
         and fr = "[0, 0, 0]",
         THEN conjunct2, THEN conjunct1, rule_format, OF m]
  show "record_hit kernel_A (Find_int64 kernel_A) \<lparr>item_id = 0, items = [9]\<rparr>
        [0, 0, 0] = Inr [0, 0, 0]" .
next
  have h: "(2 :: nat) \<le> length [9, 8 :: int64] \<and> 0 < impl_M kernel_A
        \<and> impl_M kernel_A \<le> impl_N kernel_A
        \<and> counters_in_range (impl_S kernel_A) (impl_N kernel_A) 2
        \<and> (\<forall>w\<in>set (spec_all_windows (map (\<lambda>t. t) (take 2 [9, 8 :: int64]))
                       (if impl_all kernel_A then impl_M kernel_A
                        else impl_N kernel_A) (impl_N kernel_A)
                       (impl_S kernel_A)).
              Find_int64 kernel_A \<lparr>item_id = 0, items = w\<rparr> = None)"
    by code_simp
  from C9_invalid_type_and_misses [where Find = "Find_int64 kernel_A"
         and impl = kernel_A and conv = "\<lambda>t :: int64. t"
         and input_data = "[9, 8] :: int64 list"
         and total_items = 2 and pool_size = 3,
         THEN conjunct2, THEN conjunct2, rule_format, OF h]
  show "count_ngrams kernel_A (Find_int64 kernel_A) 3 (\<lambda>t. t) [9, 8] 2
        = Inr [0, 0, 0]"
    by (simp add: numeral_3_eq_3)
qed



section \<open>Tokens converted before or while they are read\<close>

lemma deref_map:
  "deref (map f xs) k = (case deref xs k of Inl e \<Rightarrow> Inl e | Inr t \<Rightarrow> Inr (f t))"
  by (simp add: deref_def)

lemma collect_map:
  "collect g (map f xs) p e si sample = collect (\<lambda>t. g (f t)) xs p e si sample"
proof (induction "nat (e - p)" arbitrary: p sample rule: less_induct)
  case less
  show ?case
  proof (cases "p < e \<and> 0 < si")
    case False
    then show ?thesis
      by (auto simp: collect.simps [of g "map f xs" p e si sample] collect.simps [of "\<lambda>t. g (f t)" xs p e si sample])
  next
    case True
    then have ih: "collect g (map f xs) (p + si) e si s' = collect (\<lambda>t. g (f t)) xs (p + si) e si s'"
      for s'
      by (intro less) auto
    show ?thesis
      by (cases "deref xs p") (simp_all add: collect.simps [of g "map f xs" p e si sample] collect.simps [of "\<lambda>t. g (f t)" xs p e si sample]
            True deref_map ih cong: sum.case_cong)
  qed
qed

lemma unigram_loop_map:
  "unigram_loop impl Find g (map f xs) e p fr = unigram_loop impl Find (\<lambda>t. g (f t)) xs e p fr"
proof (induction "nat (e - p)" arbitrary: p fr rule: less_induct)
  case less
  show ?case
  proof (cases "p < e")
    case False
    then show ?thesis
      by (auto simp: unigram_loop.simps [of impl Find g "map f xs" e p fr] unigram_loop.simps [of impl Find "\<lambda>t. g (f t)" xs e p fr])
  next
    case True
    then have ih: "unigram_loop impl Find g (map f xs) e (p + 1) fr'
                   = unigram_loop impl Find (\<lambda>t. g (f t)) xs e (p + 1) fr'" for fr'
      by (intro less) auto
    show ?thesis
      by (cases "deref xs p") (simp_all add: unigram_loop.simps [of impl Find g "map f xs" e p fr] unigram_loop.simps [of impl Find "\<lambda>t. g (f t)" xs e p fr]
            True deref_map ih cong: sum.case_cong)
  qed
qed

lemma window_loop_map:
  "window_loop impl Find g (map f xs) e ni si p fr
     = window_loop impl Find (\<lambda>t. g (f t)) xs e ni si p fr"
proof (induction "nat (e - p)" arbitrary: p fr rule: less_induct)
  case less
  show ?case
  proof (cases "p < e")
    case False
    then show ?thesis
      by (auto simp: window_loop.simps [of impl Find g "map f xs" e ni si p fr] window_loop.simps [of impl Find "\<lambda>t. g (f t)" xs e ni si p fr])
  next
    case True
    then have ih: "window_loop impl Find g (map f xs) e ni si (p + 1) fr'
                   = window_loop impl Find (\<lambda>t. g (f t)) xs e ni si (p + 1) fr'" for fr'
      by (intro less) auto
    show ?thesis
      by (simp add: window_loop.simps [of impl Find g "map f xs" e ni si p fr] window_loop.simps [of impl Find "\<lambda>t. g (f t)" xs e ni si p fr]
            True collect_map ih Let_def cong: sum.case_cong)
  qed
qed

lemma stride_loop_map:
  "stride_loop impl Find g (map f xs) e ni S si fr
     = stride_loop impl Find (\<lambda>t. g (f t)) xs e ni S si fr"
proof (induction "nat (S + 1 - si)" arbitrary: si fr rule: less_induct)
  case less
  show ?case
  proof (cases "si \<le> S")
    case False
    then show ?thesis
      by (auto simp: stride_loop.simps [of impl Find g "map f xs" e ni S si fr] stride_loop.simps [of impl Find "\<lambda>t. g (f t)" xs e ni S si fr])
  next
    case True
    then have ih: "stride_loop impl Find g (map f xs) e ni S (si + 1) fr'
                   = stride_loop impl Find (\<lambda>t. g (f t)) xs e ni S (si + 1) fr'" for fr'
      by (intro less) auto
    show ?thesis
      by (simp add: stride_loop.simps [of impl Find g "map f xs" e ni S si fr] stride_loop.simps [of impl Find "\<lambda>t. g (f t)" xs e ni S si fr]
            True window_loop_map ih cong: sum.case_cong if_cong)
  qed
qed

lemma length_loop_map:
  "length_loop impl Find g (map f xs) e N S ni fr
     = length_loop impl Find (\<lambda>t. g (f t)) xs e N S ni fr"
proof (induction "nat (N + 1 - ni)" arbitrary: ni fr rule: less_induct)
  case less
  show ?case
  proof (cases "ni \<le> N")
    case False
    then show ?thesis
      by (auto simp: length_loop.simps [of impl Find g "map f xs" e N S ni fr] length_loop.simps [of impl Find "\<lambda>t. g (f t)" xs e N S ni fr])
  next
    case True
    then have ih: "length_loop impl Find g (map f xs) e N S (ni + 1) fr'
                   = length_loop impl Find (\<lambda>t. g (f t)) xs e N S (ni + 1) fr'" for fr'
      by (intro less) auto
    show ?thesis
      by (simp add: length_loop.simps [of impl Find g "map f xs" e N S ni fr] length_loop.simps [of impl Find "\<lambda>t. g (f t)" xs e N S ni fr]
            True unigram_loop_map stride_loop_map ih cong: sum.case_cong if_cong)
  qed
qed

lemma count_ngrams_map:
  "count_ngrams impl Find pool_size g (map f xs) total_items
     = count_ngrams impl Find pool_size (\<lambda>t. g (f t)) xs total_items"
  by (simp add: count_ngrams_def Let_def length_loop_map)

text \<open>
  C10. An \<open>int32\<close> tensor and the \<open>int64\<close> tensor of the same shape holding the same
  values (each token sign-extended, which keeps its value) give the same frequencies
  and the same result of \<open>ComputeImpl\<close>, and \<open>Compute\<close> returns the same status and
  writes the same output: the \<open>int32\<close> key stores its tokens widened and is looked up in
  \<open>int_set_\<close>.
\<close>

theorem C10_int32_as_int64:
  "map sint (map scast input_data :: int64 list) = map sint (input_data :: int32 list)
   \<and> count_ngrams impl (Find_int32 impl) (GetPoolSize_int32 impl) scast input_data total_items
       = count_ngrams impl (Find_int64 impl) (GetPoolSize_int64 impl) (\<lambda>t. t)
           (map scast input_data) total_items
   \<and> ComputeImpl_int32 fl impl input_data total_items
       = ComputeImpl_int64 fl impl (map scast input_data) total_items
   \<and> Compute fl impl \<lparr>ctx_input = \<lparr>tensor_dims = dims, tensor_data = Int32Data input_data\<rparr>,
                       ctx_output = out\<rparr>
       = (case Compute fl impl \<lparr>ctx_input = \<lparr>tensor_dims = dims,
                                   tensor_data = Int64Data (map scast input_data)\<rparr>,
                                 ctx_output = out\<rparr> of
            Inl e \<Rightarrow> Inl e
          | Inr (status, ctx') \<Rightarrow>
              Inr (status, ctx'\<lparr>ctx_input := \<lparr>tensor_dims = dims,
                                               tensor_data = Int32Data input_data\<rparr>\<rparr>))"
proof -
  have f: "Find_int32 impl = Find_int64 impl"
    by (rule ext) (simp add: Find_int32_def Find_int64_def)
  have c: "count_ngrams impl (Find_int32 impl) (GetPoolSize_int32 impl) scast input_data
             total_items
           = count_ngrams impl (Find_int64 impl) (GetPoolSize_int64 impl) (\<lambda>t. t)
               (map scast input_data) total_items"
    by (simp add: f GetPoolSize_int32_def count_ngrams_map)
  have i: "ComputeImpl_int32 fl impl input_data total_items
       = ComputeImpl_int64 fl impl (map scast input_data) total_items" for total_items
    by (simp add: ComputeImpl_int32_def ComputeImpl_int64_def ComputeImpl_def f
          GetPoolSize_int32_def count_ngrams_map)
  have s: "sint (scast x :: int64) = sint x" for x :: int32
    by (rule sint_up_scast) (simp add: is_up)
  show ?thesis
    by (simp add: c i s Compute_def Let_def split: sum.splits)
qed

section \<open>The length of the result\<close>

lemma IncrementCount_length:
  "IncrementCount impl i fr = Inr fr' \<Longrightarrow> length fr' = length fr"
  by (auto simp: IncrementCount_def Let_def split: if_splits)

lemma record_hit_length:
  "record_hit impl Find sample fr = Inr fr' \<Longrightarrow> length fr' = length fr"
  by (auto simp: record_hit_def IncrementCount_length split: option.splits)

lemma unigram_loop_length:
  "unigram_loop impl Find conv xs e p fr = Inr fr' \<Longrightarrow> length fr' = length fr"
proof (induction "nat (e - p)" arbitrary: p fr rule: less_induct)
  case less
  show ?case
  proof (cases "p < e")
    case False
    with less.prems show ?thesis
      by (simp add: unigram_loop.simps [of impl Find conv xs e p fr])
  next
    case True
    from less.prems True obtain t fr1 where
      h: "record_hit impl Find (AddItem (conv t) (Clear NGramItem_sample)) fr = Inr fr1"
      and r: "unigram_loop impl Find conv xs e (p + 1) fr1 = Inr fr'"
      by (auto simp: unigram_loop.simps [of impl Find conv xs e p fr] split: sum.splits)
    from True have "length fr' = length fr1" by (intro less.hyps [OF _ r]) auto
    with record_hit_length [OF h] show ?thesis by simp
  qed
qed

lemma window_loop_length:
  "window_loop impl Find conv xs e ni si p fr = Inr fr' \<Longrightarrow> length fr' = length fr"
proof (induction "nat (e - p)" arbitrary: p fr rule: less_induct)
  case less
  show ?case
  proof (cases "p < e \<and> \<not> p + si * (ni - 1) + 1 > e")
    case False
    with less.prems show ?thesis
      by (auto simp: window_loop.simps [of impl Find conv xs e ni si p fr] Let_def
               split: if_splits)
  next
    case True
    from less.prems True obtain sample fr1 where
      h: "record_hit impl Find sample fr = Inr fr1"
      and r: "window_loop impl Find conv xs e ni si (p + 1) fr1 = Inr fr'"
      by (auto simp: window_loop.simps [of impl Find conv xs e ni si p fr] Let_def
               split: sum.splits if_splits)
    from True have "length fr' = length fr1" by (intro less.hyps [OF _ r]) auto
    with record_hit_length [OF h] show ?thesis by simp
  qed
qed

lemma stride_loop_length:
  "stride_loop impl Find conv xs e ni S si fr = Inr fr' \<Longrightarrow> length fr' = length fr"
proof (induction "nat (S + 1 - si)" arbitrary: si fr rule: less_induct)
  case less
  show ?case
  proof (cases "si \<le> S")
    case False
    with less.prems show ?thesis
      by (simp add: stride_loop.simps [of impl Find conv xs e ni S si fr])
  next
    case True
    from less.prems True obtain fr1 where
      h: "window_loop impl Find conv xs e ni si 0 fr = Inr fr1"
      and r: "stride_loop impl Find conv xs e ni S (si + 1) fr1 = Inr fr'"
      by (auto simp: stride_loop.simps [of impl Find conv xs e ni S si fr]
               split: sum.splits if_splits)
    from True have "length fr' = length fr1" by (intro less.hyps [OF _ r]) auto
    with window_loop_length [OF h] show ?thesis by simp
  qed
qed

lemma length_loop_length:
  "length_loop impl Find conv xs e N S ni fr = Inr fr' \<Longrightarrow> length fr' = length fr"
proof (induction "nat (N + 1 - ni)" arbitrary: ni fr rule: less_induct)
  case less
  show ?case
  proof (cases "ni \<le> N")
    case False
    with less.prems show ?thesis
      by (simp add: length_loop.simps [of impl Find conv xs e N S ni fr])
  next
    case True
    from less.prems True obtain fr1 where
      h: "(if ni = 1 then unigram_loop impl Find conv xs e 0 fr
           else stride_loop impl Find conv xs e ni S 1 fr) = Inr fr1"
      and r: "length_loop impl Find conv xs e N S (ni + 1) fr1 = Inr fr'"
      by (auto simp: length_loop.simps [of impl Find conv xs e N S ni fr]
               split: sum.splits if_splits)
    from True have "length fr' = length fr1" by (intro less.hyps [OF _ r]) auto
    moreover from h have "length fr1 = length fr"
      by (auto simp: unigram_loop_length stride_loop_length split: if_splits)
    ultimately show ?thesis by simp
  qed
qed

lemma count_ngrams_length:
  "count_ngrams impl Find pool_size conv xs total_items = Inr fr \<Longrightarrow> length fr = pool_size"
  by (auto simp: count_ngrams_def Let_def split: if_splits dest: length_loop_length)

lemma OutputResult_length:
  "OutputResult fl impl fr = Inr out \<Longrightarrow> length out = length fr"
  by (auto simp: OutputResult_def Let_def split: Mode.splits if_splits)

lemma ComputeImpl_length:
  "ComputeImpl fl impl Find pool_size conv xs total_items = Inr out \<Longrightarrow> length out = pool_size"
  by (auto simp: ComputeImpl_def split: sum.splits
           dest!: count_ngrams_length OutputResult_length)

section \<open>The ids of the dictionary entries\<close>

lemma set_find_Some_mem: "set_find eq c k = Some e \<Longrightarrow> e \<in> set c"
  by (induction c) (auto split: if_splits)

lemma set_emplace_set: "set (set_emplace eq item c) \<subseteq> insert item (set c)"
  by (auto simp: set_emplace_def split: option.splits)

lemma set_emplace_length:
  "length (set_emplace eq item c) \<le> Suc (length c)"
  by (auto simp: set_emplace_def split: option.splits)

lemma Emplace_fst: "fst (Emplace eq first n sz i c) = i + n"
  by (induction n arbitrary: first i c) simp_all

lemma Emplace_length_le: "length (snd (Emplace eq first n sz i c)) \<le> length c + n"
proof (induction n arbitrary: first i c)
  case 0
  show ?case by simp
next
  case (Suc n)
  have "length (snd (Emplace eq (drop sz first) n sz (Suc i)
                       (set_emplace eq (NGramItem_new i (take sz first)) c)))
          \<le> length (set_emplace eq (NGramItem_new i (take sz first)) c) + n"
    by (rule Suc.IH)
  also have "\<dots> \<le> Suc (length c) + n"
    using set_emplace_length [of eq "NGramItem_new i (take sz first)" c] by simp
  finally show ?case by simp
qed

lemma Emplace_ids:
  "\<forall>e\<in>set c. item_id e < i \<Longrightarrow> \<forall>e\<in>set (snd (Emplace eq first n sz i c)). item_id e < i + n"
proof (induction n arbitrary: first i c)
  case 0
  then show ?case by simp
next
  case (Suc n)
  have "\<forall>e\<in>set (set_emplace eq (NGramItem_new i (take sz first)) c). item_id e < Suc i"
    using Suc.prems set_emplace_set [of eq "NGramItem_new i (take sz first)" c]
    by (auto simp: NGramItem_new_def less_Suc_eq)
  from Suc.IH [OF this] show ?case by simp
qed

lemma pool_loop_ids:
  assumes "pool_loop eq counts pool i ngram_id ngram_size c = Inr c'"
    and "ngram_id = length c" and "\<forall>e\<in>set c. item_id e < ngram_id"
  shows "\<forall>e\<in>set c'. item_id e < length c'"
  using assms
proof (induction "length counts - i" arbitrary: i ngram_id ngram_size c rule: less_induct)
  case less
  show ?case
  proof (cases "i < length counts")
    case False
    with less.prems(1) have "c' = c"
      by (simp add: pool_loop.simps [of eq counts pool i ngram_id ngram_size c])
    with less.prems(2,3) show ?thesis by simp
  next
    case True
    define start_idx where "start_idx = to_size_t (counts ! i)"
    define end_idx where "end_idx = (if i + 1 < length counts then to_size_t (counts ! (i + 1))
                                      else length pool)"
    define ngrams where "ngrams = (end_idx - start_idx) div ngram_size"
    define r where "r = Emplace eq (drop start_idx pool) ngrams ngram_size ngram_id c"
    have m: "length counts - (i + 1) < length counts - i" using True by simp
    show ?thesis
    proof (cases "end_idx - start_idx > 0")
      case False
      with less.prems(1) True
      have "pool_loop eq counts pool (i + 1) ngram_id (ngram_size + 1) c = Inr c'"
        by (simp add: pool_loop.simps [of eq counts pool i ngram_id ngram_size c] Let_def
              start_idx_def end_idx_def split: if_splits)
      from less.hyps [OF m this less.prems(2,3)] show ?thesis .
    next
      case pos: True
      with less.prems(1) True
      have l: "length c + ngrams = length (snd r)"
        and p: "pool_loop eq counts pool (i + 1) (fst r) (ngram_size + 1) (snd r) = Inr c'"
        by (auto simp: pool_loop.simps [of eq counts pool i ngram_id ngram_size c] Let_def
              start_idx_def end_idx_def ngrams_def r_def split: if_splits prod.splits)
      have f: "fst r = length (snd r)"
        using l less.prems(2) by (simp add: r_def Emplace_fst)
      have "\<forall>e\<in>set (snd r). item_id e < ngram_id + ngrams"
        unfolding r_def by (rule Emplace_ids) (rule less.prems(3))
      then have "\<forall>e\<in>set (snd r). item_id e < fst r"
        by (simp add: r_def Emplace_fst)
      from less.hyps [OF m p f this] show ?thesis .
    qed
  qed
qed

lemma Ngram_int_pool:
  assumes "Ngram info = Inr impl" "impl_pool_strings impl = []"
  shows "length (impl_int_set impl) = length (impl_ngram_indexes impl)"
    and "\<forall>e\<in>set (impl_int_set impl). item_id e < length (impl_ngram_indexes impl)"
    and "impl_mode impl \<noteq> kNone"
    and "impl_weights impl = [] \<or> length (impl_weights impl) = length (impl_ngram_indexes impl)"
    and "0 < impl_M impl" and "impl_M impl \<le> impl_N impl"
proof -
  from Ngram_InrD [OF assms(1)] obtain impl0 pool where a: "Ngram_attrs info = Inr (impl0, pool)"
    and b: "if impl_pool_strings impl0 = [] then
                 \<exists>c. pool_loop NGramItem_int64_eq (impl_ngram_counts impl0) pool 0 0 1 [] = Inr c
                   \<and> length c = length (impl_ngram_indexes impl0)
                   \<and> impl = impl0\<lparr>impl_int_set := c\<rparr>
               else
                 \<exists>c. pool_loop NGramItem_string_eq (impl_ngram_counts impl0)
                        (impl_pool_strings impl0) 0 0 1 [] = Inr c
                   \<and> length (impl_pool_strings impl0) = length (impl_ngram_indexes impl0)
                   \<and> impl = impl0\<lparr>impl_str_set := c\<rparr>"
    by blast
  have s: "impl_pool_strings impl0 = []"
    using b assms(2) by (auto split: if_splits)
  with b obtain c where
    c: "pool_loop NGramItem_int64_eq (impl_ngram_counts impl0) pool 0 0 1 [] = Inr c"
    and l: "length c = length (impl_ngram_indexes impl0)"
    and i: "impl = impl0\<lparr>impl_int_set := c\<rparr>"
    by auto
  have ids: "\<forall>e\<in>set c. item_id e < length c"
    using pool_loop_ids [OF c] by simp
  show "length (impl_int_set impl) = length (impl_ngram_indexes impl)"
    using l i by simp
  show "\<forall>e\<in>set (impl_int_set impl). item_id e < length (impl_ngram_indexes impl)"
    using ids l i by simp
  show "impl_mode impl \<noteq> kNone"
    "impl_weights impl = [] \<or> length (impl_weights impl) = length (impl_ngram_indexes impl)"
    "0 < impl_M impl" "impl_M impl \<le> impl_N impl"
    using Ngram_attrs_fields [OF a] i by simp_all
qed

lemma record_hits_total:
  assumes "\<forall>k e. Find k = Some e \<longrightarrow> item_id e < length (impl_ngram_indexes impl)"
    and "\<forall>s\<in>set (impl_ngram_indexes impl). 0 \<le> s \<and> nat s < length fr"
  shows "\<exists>fr'. record_hits impl Find ws fr = Inr fr'"
  using assms(2)
proof (induction ws arbitrary: fr)
  case Nil
  show ?case by simp
next
  case (Cons w ws)
  have "\<exists>fr1. record_hit impl Find \<lparr>item_id = 0, items = w\<rparr> fr = Inr fr1 \<and> length fr1 = length fr"
  proof (cases "Find \<lparr>item_id = 0, items = w\<rparr>")
    case None
    then show ?thesis by (simp add: record_hit_def)
  next
    case (Some e)
    from assms(1) Some have "item_id e < length (impl_ngram_indexes impl)" by blast
    with Cons.prems show ?thesis
      by (simp add: record_hit_def Some IncrementCount_def Let_def)
  qed
  then obtain fr1 where h: "record_hit impl Find \<lparr>item_id = 0, items = w\<rparr> fr = Inr fr1"
    and l: "length fr1 = length fr" by blast
  from Cons.prems l have "\<forall>s\<in>set (impl_ngram_indexes impl). 0 \<le> s \<and> nat s < length fr1"
    by simp
  from Cons.IH [OF this] h show ?case by simp
qed

lemma OutputResult_total:
  "impl_mode impl \<noteq> kNone \<Longrightarrow> impl_weights impl = [] \<or> length (impl_weights impl) = length fr
     \<Longrightarrow> \<exists>out. OutputResult fl impl fr = Inr out"
  by (cases "impl_mode impl") (auto simp: OutputResult_def Let_def)


lemma Find_int64_id:
  assumes "Ngram info = Inr impl" "impl_pool_strings impl = []" "Find_int64 impl k = Some e"
  shows "item_id e < length (impl_ngram_indexes impl)"
  using Ngram_int_pool(2) [OF assms(1,2)] set_find_Some_mem [of NGramItem_int64_eq _ k e] assms(3)
  by (auto simp: Find_int64_def)

lemma ComputeImpl_int64_total:
  assumes "Ngram info = Inr impl" "impl_pool_strings impl = []"
    and "\<forall>s\<in>set (impl_ngram_indexes impl). 0 \<le> s \<and> s < int (length (impl_ngram_indexes impl))"
    and "n \<le> length xs" and "counters_in_range (impl_S impl) (impl_N impl) n"
  shows "\<exists>y. ComputeImpl_int64 fl impl xs n = Inr y \<and> length y = length (impl_ngram_indexes impl)"
proof -
  note k = Ngram_int_pool [OF assms(1,2)]
  have p: "GetPoolSize_int64 impl = length (impl_ngram_indexes impl)"
    using k(1) by (simp add: GetPoolSize_int64_def)
  have "\<forall>s\<in>set (impl_ngram_indexes impl).
          0 \<le> s \<and> nat s < length (replicate (GetPoolSize_int64 impl) (0 :: uint32))"
    using assms(3) p by auto
  note s = this
  have f: "\<forall>k e. Find_int64 impl k = Some e \<longrightarrow> item_id e < length (impl_ngram_indexes impl)"
    using Find_int64_id [OF assms(1,2)] by blast
  from record_hits_total [where Find = "Find_int64 impl" and impl = impl, OF f s]
  obtain fr where "record_hits impl (Find_int64 impl)
      (spec_all_windows (map (\<lambda>t. t) (take n xs))
         (if impl_all impl then impl_M impl else impl_N impl) (impl_N impl) (impl_S impl))
      (replicate (GetPoolSize_int64 impl) 0) = Inr fr"
    by blast
  then have c: "count_ngrams impl (Find_int64 impl) (GetPoolSize_int64 impl) (\<lambda>t. t) xs n = Inr fr"
    by (simp only: count_ngrams_refines [OF assms(4) k(5,6) assms(5)])
  have l: "length fr = length (impl_ngram_indexes impl)"
    using count_ngrams_length [OF c] p by simp
  from OutputResult_total [OF k(3), of fr fl] k(4) l
  obtain y where o: "OutputResult fl impl fr = Inr y" by auto
  from OutputResult_length [OF o] l c o show ?thesis
    by (simp add: ComputeImpl_int64_def ComputeImpl_def)
qed

text \<open>
  C4, as amended. The frequency vector is created with \<open>GetPoolSize<T>()\<close> elements
  (line 402) and the output has the shape \<open>[frequences.size()]\<close> (line 355), so a call
  that completes yields a frequency vector and an output of the length of the
  dictionary, for each of the three element types. For a kernel constructed from an
  integer pool that is \<open>length(outputSlotOf)\<close>, and the call on an \<open>int64\<close> input
  completes whenever every output slot is at least 0 and less than that length, the
  \<open>total_items\<close> tokens lie in the input buffer, and no counter and no pointer offset
  leaves its range: \<open>S + 1 < INT_MAX\<close>, \<open>N < INT64_MAX\<close> and, when there is a stride
  at all, \<open>total_items + (S + 1) * N \<le> ptr_offset_max\<close> (\<open>counters_in_range\<close>).
\<close>

theorem C4_output_length:
  "(count_ngrams impl Find pool_size conv input_data total_items = Inr fr
      \<longrightarrow> length fr = pool_size)
   \<and> (ComputeImpl fl impl Find pool_size conv input_data total_items = Inr out
      \<longrightarrow> length out = pool_size)
   \<and> (Compute fl impl ctx = Inr (OK, ctx') \<longrightarrow>
        (\<exists>y. ctx_output ctx' = Some y
           \<and> length y = (case tensor_data (ctx_input ctx) of
                            StringData _ \<Rightarrow> GetPoolSize_string impl
                          | Int32Data _ \<Rightarrow> GetPoolSize_int32 impl
                          | _ \<Rightarrow> GetPoolSize_int64 impl)))
   \<and> (Ngram info = Inr built \<and> impl_pool_strings built = [] \<longrightarrow>
        GetPoolSize_int64 built = length (impl_ngram_indexes built))
   \<and> (Ngram info = Inr built \<and> impl_pool_strings built = []
        \<and> (\<forall>s\<in>set (impl_ngram_indexes built).
               0 \<le> s \<and> s < int (length (impl_ngram_indexes built)))
        \<and> n \<le> length xs \<and> counters_in_range (impl_S built) (impl_N built) n \<longrightarrow>
        (\<exists>y. ComputeImpl_int64 fl built xs n = Inr y
           \<and> length y = length (impl_ngram_indexes built)))"
proof (intro conjI impI)
  assume "count_ngrams impl Find pool_size conv input_data total_items = Inr fr"
  then show "length fr = pool_size" by (rule count_ngrams_length)
next
  assume "ComputeImpl fl impl Find pool_size conv input_data total_items = Inr out"
  then show "length out = pool_size" by (rule ComputeImpl_length)
next
  assume "Compute fl impl ctx = Inr (OK, ctx')"
  then show "\<exists>y. ctx_output ctx' = Some y
           \<and> length y = (case tensor_data (ctx_input ctx) of
                            StringData _ \<Rightarrow> GetPoolSize_string impl
                          | Int32Data _ \<Rightarrow> GetPoolSize_int32 impl
                          | _ \<Rightarrow> GetPoolSize_int64 impl)"
    by (auto simp: Compute_def Let_def ComputeImpl_int32_def ComputeImpl_int64_def
          ComputeImpl_string_def split: TensorData.splits sum.splits
          dest: ComputeImpl_length)
next
  assume "Ngram info = Inr built \<and> impl_pool_strings built = []"
  then show "GetPoolSize_int64 built = length (impl_ngram_indexes built)"
    using Ngram_int_pool(1) [of info built] by (simp add: GetPoolSize_int64_def)
next
  assume "Ngram info = Inr built \<and> impl_pool_strings built = []
        \<and> (\<forall>s\<in>set (impl_ngram_indexes built).
               0 \<le> s \<and> s < int (length (impl_ngram_indexes built)))
        \<and> n \<le> length xs \<and> counters_in_range (impl_S built) (impl_N built) n"
  then show "\<exists>y. ComputeImpl_int64 fl built xs n = Inr y
           \<and> length y = length (impl_ngram_indexes built)"
    using ComputeImpl_int64_total by blast
qed

lemma Ngram_shared_slot: "Ngram shared_slot = Inr kernel_shared_slot"
  by code_simp

text \<open>
  The witness of C4: the kernel of Scenario A on \<open>[5, 5, 6]\<close>, as a call of
  \<open>ComputeImpl\<close> and as a call of \<open>Compute\<close>.
\<close>

theorem C4_output_length_witness:
  "Ngram scenario_A = Inr kernel_A \<and> impl_pool_strings kernel_A = []
   \<and> counters_in_range (impl_S kernel_A) (impl_N kernel_A) 3
   \<and> GetPoolSize_int64 kernel_A = length (impl_ngram_indexes kernel_A)
   \<and> (\<exists>y. ComputeImpl_int64 ideal_float kernel_A [5, 5, 6] 3 = Inr y \<and> length y = 3)
   \<and> (\<exists>y. Compute ideal_float kernel_A
              \<lparr>ctx_input = \<lparr>tensor_dims = [3], tensor_data = Int64Data [5, 5, 6]\<rparr>,
               ctx_output = None\<rparr>
            = Inr (OK, \<lparr>ctx_input = \<lparr>tensor_dims = [3], tensor_data = Int64Data [5, 5, 6]\<rparr>,
                        ctx_output = Some y\<rparr>)
          \<and> length y = 3)"
proof -
  have a: "Ngram scenario_A = Inr kernel_A \<and> impl_pool_strings kernel_A = []"
    by (simp add: Ngram_scenario_A) (simp add: kernel_A_def)
  have b: "Ngram scenario_A = Inr kernel_A \<and> impl_pool_strings kernel_A = []
        \<and> (\<forall>s\<in>set (impl_ngram_indexes kernel_A).
               0 \<le> s \<and> s < int (length (impl_ngram_indexes kernel_A)))
        \<and> (3 :: nat) \<le> length [5, 5, 6 :: int64]
        \<and> counters_in_range (impl_S kernel_A) (impl_N kernel_A) 3"
    using a
    by (simp add: kernel_A_def counters_in_range_def INT_MAX_def INT64_MAX_def
          ptr_offset_max_def)
  have c: "Compute ideal_float kernel_A
              \<lparr>ctx_input = \<lparr>tensor_dims = [3], tensor_data = Int64Data [5, 5, 6]\<rparr>,
               ctx_output = None\<rparr>
            = Inr (OK, \<lparr>ctx_input = \<lparr>tensor_dims = [3], tensor_data = Int64Data [5, 5, 6]\<rparr>,
                        ctx_output = Some [2, 1, 0]\<rparr>)"
  proof -
    have ti: "get_total_items [3] = 3"
      by (simp add: get_total_items_def to_size_t_def)
    have ci: "ComputeImpl_int64 ideal_float kernel_A [5, 5, 6] 3 = Inr [2, 1, 0]"
      by code_simp
    show ?thesis by (simp add: Compute_def ti ci)
  qed
  have len: "length (impl_ngram_indexes kernel_A) = 3"
    by (simp add: kernel_A_def)
  note t = C4_output_length [where info = scenario_A and built = kernel_A and fl = ideal_float
      and impl = kernel_A and n = 3 and xs = "[5, 5, 6]"
      and ctx = "\<lparr>ctx_input = \<lparr>tensor_dims = [3], tensor_data = Int64Data [5, 5, 6]\<rparr>,
               ctx_output = None\<rparr>"
      and ctx' = "\<lparr>ctx_input = \<lparr>tensor_dims = [3], tensor_data = Int64Data [5, 5, 6]\<rparr>,
                        ctx_output = Some [2, 1, 0]\<rparr>"]
  from t [THEN conjunct2, THEN conjunct2, THEN conjunct2, THEN conjunct1, rule_format, OF a]
  have 1: "GetPoolSize_int64 kernel_A = length (impl_ngram_indexes kernel_A)" .
  from t [THEN conjunct2, THEN conjunct2, THEN conjunct2, THEN conjunct2, rule_format, OF b]
  have 2: "\<exists>y. ComputeImpl_int64 ideal_float kernel_A [5, 5, 6] 3 = Inr y \<and> length y = 3"
    by (simp only: len)
  from t [THEN conjunct2, THEN conjunct2, THEN conjunct1, rule_format, OF c]
  have 3: "length [2, 1, 0 :: real] = 3"
    using 1 by (simp add: kernel_A_def)
  from a b 1 2 c 3 show ?thesis by auto
qed

text \<open>
  C4 as stated fails where two entries share an output slot: with the unigrams 5 and 6
  both sent to slot 0, \<open>max(outputSlotOf) + 1\<close> is 1 and the output of a call has
  2 elements.
\<close>

theorem C4_shared_slot_counterexample:
  "Ngram shared_slot = Inr kernel_shared_slot
   \<and> ComputeImpl_int64 ideal_float kernel_shared_slot [5] 1 = Inr [1, 0]
   \<and> int (length [1, 0 :: real]) \<noteq> Max (set (impl_ngram_indexes kernel_shared_slot)) + 1"
proof -
  have "ComputeImpl_int64 ideal_float kernel_shared_slot [5] 1 = Inr [1, 0]"
    by code_simp
  moreover have "Ngram shared_slot = Inr kernel_shared_slot"
    by code_simp
  ultimately show ?thesis by (simp add: kernel_shared_slot_def)
qed

section \<open>Duplicate chunks are refused\<close>

lemma set_find_None_iff:
  assumes "\<forall>a b. eq a b \<longleftrightarrow> items a = items b"
  shows "set_find eq c k = None \<longleftrightarrow> (\<forall>e\<in>set c. items e \<noteq> items k)"
  using assms by (induction c) auto

lemma set_emplace_present:
  assumes "\<forall>a b. eq a b \<longleftrightarrow> items a = items b" "\<exists>e\<in>set c. items e = items item"
  shows "set_emplace eq item c = c"
proof -
  from assms have "set_find eq c item \<noteq> None"
    by (simp add: set_find_None_iff)
  then show ?thesis by (auto simp: set_emplace_def)
qed

lemma set_emplace_mono: "set c \<subseteq> set (set_emplace eq item c)"
  by (auto simp: set_emplace_def split: option.splits)

lemma set_emplace_has:
  assumes "\<forall>a b. eq a b \<longleftrightarrow> items a = items b"
  shows "\<exists>e\<in>set (set_emplace eq item c). items e = items item"
proof (cases "set_find eq c item")
  case None
  then show ?thesis by (simp add: set_emplace_def)
next
  case (Some e)
  have "(set_find eq c item = None) = (\<forall>e\<in>set c. items e \<noteq> items item)"
    by (rule set_find_None_iff [OF assms])
  with Some have "\<exists>e\<in>set c. items e = items item"
    by simp
  with Some show ?thesis by (simp add: set_emplace_def)
qed

lemma Emplace_present:
  assumes "\<forall>a b. eq a b \<longleftrightarrow> items a = items b"
    and "\<exists>e\<in>set c. items e = take sz (drop (j * sz) first)" and "j < n"
  shows "length (snd (Emplace eq first n sz i c)) < length c + n"
  using assms(2,3)
proof (induction n arbitrary: first i c j)
  case 0
  then show ?case by simp
next
  case (Suc n)
  let ?c1 = "set_emplace eq (NGramItem_new i (take sz first)) c"
  show ?case
  proof (cases j)
    case 0
    with Suc.prems(1) have "?c1 = c"
      by (intro set_emplace_present [OF assms(1)]) (simp add: NGramItem_new_def)
    then have "length (snd (Emplace eq first (Suc n) sz i c))
                 = length (snd (Emplace eq (drop sz first) n sz (Suc i) c))"
      by simp
    also have "\<dots> \<le> length c + n" by (rule Emplace_length_le)
    finally show ?thesis by simp
  next
    case (Suc j')
    have "take sz (drop (j * sz) first) = take sz (drop (j' * sz) (drop sz first))"
      by (simp add: Suc add.commute)
    with Suc.prems(1) set_emplace_mono [of c eq "NGramItem_new i (take sz first)"]
    have "\<exists>e\<in>set ?c1. items e = take sz (drop (j' * sz) (drop sz first))"
      by auto
    from Suc.IH [OF this] Suc.prems(2) Suc
    have "length (snd (Emplace eq (drop sz first) n sz (Suc i) ?c1)) < length ?c1 + n"
      by simp
    also have "\<dots> \<le> Suc (length c) + n"
      using set_emplace_length [of eq "NGramItem_new i (take sz first)" c] by simp
    finally show ?thesis by simp
  qed
qed

lemma Emplace_dup:
  assumes "\<forall>a b. eq a b \<longleftrightarrow> items a = items b"
    and "j < k" and "k < n"
    and "take sz (drop (j * sz) first) = take sz (drop (k * sz) first)"
  shows "length (snd (Emplace eq first n sz i c)) < length c + n"
  using assms(2,3,4)
proof (induction n arbitrary: first i c j k)
  case 0
  then show ?case by simp
next
  case (Suc n)
  let ?c1 = "set_emplace eq (NGramItem_new i (take sz first)) c"
  from Suc.prems(1) obtain k' where k: "k = Suc k'" by (cases k) auto
  have dk: "take sz (drop (k * sz) first) = take sz (drop (k' * sz) (drop sz first))"
    by (simp add: k add.commute)
  have l1: "length ?c1 \<le> Suc (length c)" by (rule set_emplace_length)
  have "length (snd (Emplace eq (drop sz first) n sz (Suc i) ?c1)) < length ?c1 + n"
  proof (cases j)
    case 0
    have "\<exists>e\<in>set ?c1. items e = take sz first"
      using set_emplace_has [OF assms(1), of "NGramItem_new i (take sz first)" c]
      by (simp add: NGramItem_new_def)
    with Suc.prems(3) 0 dk have "\<exists>e\<in>set ?c1. items e = take sz (drop (k' * sz) (drop sz first))"
      by simp
    from Emplace_present [OF assms(1) this] Suc.prems(2) k show ?thesis by simp
  next
    case (Suc j')
    have "take sz (drop (j * sz) first) = take sz (drop (j' * sz) (drop sz first))"
      by (simp add: Suc add.commute)
    with Suc.prems(3) dk
    have "take sz (drop (j' * sz) (drop sz first)) = take sz (drop (k' * sz) (drop sz first))"
      by simp
    from Suc.IH [OF _ _ this] Suc.prems(1,2) Suc k show ?thesis by simp
  qed
  with l1 show ?case by simp
qed


lemma pool_loop_step:
  assumes "i < length counts"
  shows "(\<exists>e. pool_loop eq counts pool i ngram_id ngram_size c = Inl e)
         \<or> (\<exists>ngram_id' c'. pool_loop eq counts pool i ngram_id ngram_size c
                = pool_loop eq counts pool (i + 1) ngram_id' (ngram_size + 1) c')"
  using assms
  by (subst pool_loop.simps, subst (3) pool_loop.simps)
     (auto simp: Let_def split: prod.splits)

lemma pool_loop_dup_here:
  assumes "\<forall>a b. eq a b \<longleftrightarrow> items a = items b"
    and "spec_duplicate_at counts pool i j k"
  shows "\<exists>e. pool_loop eq counts pool i ngram_id (i + 1) c = Inl e"
proof -
  define start_idx where "start_idx = to_size_t (counts ! i)"
  define end_idx where "end_idx = (if i + 1 < length counts then to_size_t (counts ! (i + 1))
                                    else length pool)"
  define ngrams where "ngrams = (end_idx - start_idx) div (i + 1)"
  define r where "r = Emplace eq (drop start_idx pool) ngrams (i + 1) ngram_id c"
  from assms(2) have i: "i < length counts" and jk: "j < k"
    and fit: "start_idx + (k + 1) * (i + 1) \<le> end_idx"
    and ch: "take (i + 1) (drop (start_idx + j * (i + 1)) pool)
               = take (i + 1) (drop (start_idx + k * (i + 1)) pool)"
    by (simp_all add: spec_duplicate_at_def segment_start_def segment_end_def spec_chunk_def
          start_idx_def end_idx_def)
  from fit have pos: "end_idx - start_idx > 0" by simp
  have u: "pool_loop eq counts pool i ngram_id (i + 1) c =
             (if \<not> (end_idx \<ge> start_idx \<and> end_idx \<le> length pool)
                then Inl (CountsOutOfBounds (i + 1))
              else if \<not> (end_idx - start_idx) mod (i + 1) = 0 then Inl (NotWholeNgrams (i + 1))
              else if \<not> length c + ngrams = length (snd r) then Inl (DuplicateNgrams (i + 1))
              else pool_loop eq counts pool (i + 1) (fst r) (i + 1 + 1) (snd r))"
    using i pos
    by (subst pool_loop.simps)
       (simp add: Let_def start_idx_def end_idx_def ngrams_def r_def split: prod.splits)
  show ?thesis
  proof (cases "(end_idx - start_idx) mod (i + 1) = 0")
    case False
    then show ?thesis unfolding u by simp
  next
    case True
    have "(k + 1) * (i + 1) \<le> end_idx - start_idx" using fit by simp
    then have "(k + 1) * (i + 1) div (i + 1) \<le> ngrams"
      unfolding ngrams_def by (rule div_le_mono)
    moreover have "(k + 1) * (i + 1) div (i + 1) = k + 1"
      by (rule nonzero_mult_div_cancel_right) simp
    ultimately have kn: "k < ngrams" by linarith
    have "take (i + 1) (drop (j * (i + 1)) (drop start_idx pool))
            = take (i + 1) (drop (k * (i + 1)) (drop start_idx pool))"
      using ch by (simp add: add.commute)
    from Emplace_dup [OF assms(1) jk kn this]
    have "length (snd r) < length c + ngrams" by (simp add: r_def)
    then show ?thesis unfolding u by simp
  qed
qed

lemma pool_loop_dup:
  assumes "\<forall>a b. eq a b \<longleftrightarrow> items a = items b"
    and "spec_duplicate_at counts pool i j k" and "i0 \<le> i"
  shows "\<exists>e. pool_loop eq counts pool i0 ngram_id (i0 + 1) c = Inl e"
  using assms(3)
proof (induction "i - i0" arbitrary: i0 ngram_id c)
  case 0
  then have "i0 = i" by simp
  then show ?case using pool_loop_dup_here [OF assms(1,2)] by simp
next
  case (Suc d)
  then have lt: "i0 < i" by simp
  from assms(2) have "i < length counts" by (simp add: spec_duplicate_at_def)
  with lt have "i0 < length counts" by simp
  from pool_loop_step [OF this, of eq pool ngram_id "i0 + 1" c]
  show ?case
  proof
    assume "\<exists>e. pool_loop eq counts pool i0 ngram_id (i0 + 1) c = Inl e"
    then show ?thesis .
  next
    assume "\<exists>ngram_id' c'. pool_loop eq counts pool i0 ngram_id (i0 + 1) c
                = pool_loop eq counts pool (i0 + 1) ngram_id' (i0 + 1 + 1) c'"
    then obtain ngram_id' c' where
      s: "pool_loop eq counts pool i0 ngram_id (i0 + 1) c
            = pool_loop eq counts pool (i0 + 1) ngram_id' (i0 + 1 + 1) c'"
      by blast
    have "\<exists>e. pool_loop eq counts pool (i0 + 1) ngram_id' (i0 + 1 + 1) c' = Inl e"
      using Suc.hyps(2) lt by (intro Suc.hyps(1)) auto
    with s show ?thesis by simp
  qed
qed

text \<open>
  C7. When two chunks of one length segment of the pool have the same content,
  construction fails, for a string pool and for an integer pool alike: the loop either
  stops at an earlier check or reaches the segment, where the set grows by fewer entries
  than chunks and line 332 (or 336) throws. Scenario E, where nothing else is wrong,
  fails with the duplicate error for bigrams.
\<close>

theorem C7_duplicate_chunks_refused:
  "(attr_ngram_counts info = Some counts \<and> attr_pool_strings info = Some spool
      \<and> spec_duplicate_at counts spool i j k \<longrightarrow> (\<exists>e. Ngram info = Inl e))
   \<and> (attr_ngram_counts info = Some counts \<and> attr_pool_strings info = None
      \<and> attr_pool_int64s info = Some ipool
      \<and> spec_duplicate_at counts ipool i j k \<longrightarrow> (\<exists>e. Ngram info = Inl e))
   \<and> (case Ngram scenario_E of Inl e \<Rightarrow> e = DuplicateNgrams 2 | Inr built \<Rightarrow> False)"
proof (intro conjI impI)
  assume h: "attr_ngram_counts info = Some counts \<and> attr_pool_strings info = Some spool
      \<and> spec_duplicate_at counts spool i j k"
  show "\<exists>e. Ngram info = Inl e"
  proof (cases "Ngram_attrs info")
    case (Inl e)
    then show ?thesis by (simp add: Ngram_def)
  next
    case (Inr r)
    obtain impl0 pool where r: "r = (impl0, pool)" by (cases r)
    from Ngram_attrs_fields(5) [of info impl0 pool] Ngram_attrs_pools [of info impl0 pool] Inr r h
    have c: "impl_ngram_counts impl0 = counts" and p: "impl_pool_strings impl0 = spool"
      and ne: "spool \<noteq> []"
      by auto
    from pool_loop_dup [of NGramItem_string_eq counts spool i j k 0 0 "impl_str_set impl0"] h
    obtain e where "pool_loop NGramItem_string_eq counts spool 0 0 1 (impl_str_set impl0) = Inl e"
      by (auto simp: NGramItem_string_eq_iff)
    with Inr r c p ne show ?thesis by (simp add: Ngram_def)
  qed
next
  assume h: "attr_ngram_counts info = Some counts \<and> attr_pool_strings info = None
      \<and> attr_pool_int64s info = Some ipool \<and> spec_duplicate_at counts ipool i j k"
  show "\<exists>e. Ngram info = Inl e"
  proof (cases "Ngram_attrs info")
    case (Inl e)
    then show ?thesis by (simp add: Ngram_def)
  next
    case (Inr r)
    obtain impl0 pool where r: "r = (impl0, pool)" by (cases r)
    from Ngram_attrs_fields(5) [of info impl0 pool] Ngram_attrs_pools [of info impl0 pool] Inr r h
    have c: "impl_ngram_counts impl0 = counts" and p: "impl_pool_strings impl0 = []"
      and q: "pool = ipool"
      by auto
    from pool_loop_dup [of NGramItem_int64_eq counts ipool i j k 0 0 "impl_int_set impl0"] h
    obtain e where "pool_loop NGramItem_int64_eq counts ipool 0 0 1 (impl_int_set impl0) = Inl e"
      by (auto simp: NGramItem_int64_eq_iff)
    with Inr r c p q show ?thesis by (simp add: Ngram_def)
  qed
next
  show "case Ngram scenario_E of Inl e \<Rightarrow> e = DuplicateNgrams 2 | Inr built \<Rightarrow> False"
    by code_simp
qed

text \<open>
  The witness of C7: Scenario E, whose chunks 0 and 1 of the bigram segment are both
  \<open>(1, 3)\<close>, and the same pool as strings.
\<close>

theorem C7_duplicate_chunks_refused_witness:
  "spec_duplicate_at [0, 0] [1, 3, 1, 3 :: int64] 1 0 1
   \<and> (\<exists>e. Ngram scenario_E = Inl e)
   \<and> spec_duplicate_at [0, 0] [''a'', ''b'', ''a'', ''b''] 1 0 1
   \<and> (\<exists>e. Ngram (scenario_E\<lparr>attr_pool_strings := Some [''a'', ''b'', ''a'', ''b''],
                               attr_pool_int64s := None\<rparr>) = Inl e)"
proof -
  have d: "spec_duplicate_at [0, 0] [1, 3, 1, 3 :: int64] 1 0 1"
    by (simp add: spec_duplicate_at_def segment_start_def segment_end_def spec_chunk_def
          to_size_t_def)
  have ds: "spec_duplicate_at [0, 0] [''a'', ''b'', ''a'', ''b''] 1 0 1"
    by (simp add: spec_duplicate_at_def segment_start_def segment_end_def spec_chunk_def
          to_size_t_def)
  have "\<exists>e. Ngram scenario_E = Inl e"
    using d C7_duplicate_chunks_refused [where info = scenario_E and counts = "[0, 0]"
        and ipool = "[1, 3, 1, 3]" and i = 1 and j = 0 and k = 1,
        THEN conjunct2, THEN conjunct1]
    by (simp add: scenario_E_def)
  moreover have "\<exists>e. Ngram (scenario_E\<lparr>attr_pool_strings := Some [''a'', ''b'', ''a'', ''b''],
                               attr_pool_int64s := None\<rparr>) = Inl e"
    using ds C7_duplicate_chunks_refused [where
        info = "scenario_E\<lparr>attr_pool_strings := Some [''a'', ''b'', ''a'', ''b''],
                            attr_pool_int64s := None\<rparr>" and counts = "[0, 0]"
        and spool = "[''a'', ''b'', ''a'', ''b'']" and i = 1 and j = 0 and k = 1,
        THEN conjunct1]
    by (simp add: scenario_E_def)
  ultimately show ?thesis using d ds by blast
qed

end
